theory Spec2Isabelle
  imports Complex_Main "HOL-Library.AList" "HOL-Library.Char_ord" "HOL-Library.List_Lexorder"
begin

section \<open>Python values used by compose.py\<close>

text \<open>
  A path is a Python tuple of strings such as \<open>("regions", "TEXT", "3", "0")\<close>.
  The slice \<open>p[:n]\<close> is \<open>take n p\<close>; an index \<open>p[i]\<close> out of range raises
  IndexError. Strings are ASCII character lists, floats are reals (no NaN).
\<close>

type_synonym path = "string list"

text \<open>
  Every exception compose.py can raise is a value. The constructors that stand for a
  formatted message carry the values formatted into it.
\<close>

datatype error =
    EmptyGeometry path string real
    \<comment> \<open>RuntimeError "line %s has text '%s', confidence %.2f, but empty geometry"\<close>
  | NoTextFound path "real list"
    \<comment> \<open>RuntimeError "no text found for %s, line confidences are: %s"\<close>
  | IllegalPathInOrder path
    \<comment> \<open>RuntimeError "illegal path %s in reading order"\<close>
  | IllegalRegionLinePath path
    \<comment> \<open>ValueError "illegal region/line path %s"\<close>
  | ValueError
    \<comment> \<open>ValueError of \<open>int(s)\<close> or of a tuple assignment with the wrong number of values\<close>
  | AssertionError
  | KeyError path
  | IndexError
  | AttributeError string

definition bind_res :: "error + 'a \<Rightarrow> ('a \<Rightarrow> error + 'b) \<Rightarrow> error + 'b" where
  "bind_res m f = (case m of Inl e \<Rightarrow> Inl e | Inr v \<Rightarrow> f v)"

text \<open>A \<open>for\<close> loop whose body may raise: the first exception ends it.\<close>

fun for_each :: "('a \<Rightarrow> 's \<Rightarrow> error + 's) \<Rightarrow> 'a list \<Rightarrow> 's \<Rightarrow> error + 's" where
  "for_each f [] s = Inr s"
| "for_each f (x # xs) s = bind_res (f x s) (for_each f xs)"

text \<open>A list comprehension whose element expression may raise.\<close>

fun map_res :: "('a \<Rightarrow> error + 'b) \<Rightarrow> 'a list \<Rightarrow> error + 'b list" where
  "map_res f [] = Inr []"
| "map_res f (x # xs) = bind_res (f x) (\<lambda>y. bind_res (map_res f xs) (\<lambda>ys. Inr (y # ys)))"

text \<open>\<open>d[k]\<close> on a dict and \<open>t[i]\<close> on a tuple.\<close>

definition lookup :: "(path \<rightharpoonup> 'v) \<Rightarrow> path \<Rightarrow> error + 'v" where
  "lookup d k = (case d k of None \<Rightarrow> Inl (KeyError k) | Some v \<Rightarrow> Inr v)"

definition index :: "'a list \<Rightarrow> nat \<Rightarrow> error + 'a" where
  "index t i = (if i < length t then Inr (t ! i) else Inl IndexError)"

text \<open>\<open>str.isspace\<close> on the ASCII range: TAB to CR, FS to US, and the blank.\<close>

definition is_space :: "char \<Rightarrow> bool" where
  "is_space c = (let n = (of_char c :: nat) in (9 \<le> n \<and> n \<le> 13) \<or> (28 \<le> n \<and> n \<le> 32))"

text \<open>\<open>str.strip()\<close>: leading and trailing whitespace removed.\<close>

definition strip :: "string \<Rightarrow> string" where
  "strip s = rev (dropWhile is_space (rev (dropWhile is_space s)))"

text \<open>\<open>sep.join(xs)\<close> and \<open>s.split(d)\<close> for a one-character delimiter.\<close>

fun join :: "string \<Rightarrow> string list \<Rightarrow> string" where
  "join sep [] = []"
| "join sep [x] = x"
| "join sep (x # y # ys) = x @ sep @ join sep (y # ys)"

fun split :: "char \<Rightarrow> string \<Rightarrow> string list" where
  "split d [] = [[]]"
| "split d (c # cs) =
     (if c = d then [] # split d cs
      else (case split d cs of [] \<Rightarrow> [[c]] | w # ws \<Rightarrow> (c # w) # ws))"

text \<open>\<open>"%d" % n\<close> and \<open>str(n)\<close> for an integer: decimal digits, a minus sign when negative.\<close>

fun str_nat :: "nat \<Rightarrow> string" where
  "str_nat n = (if n < 10 then [char_of (48 + n)] else str_nat (n div 10) @ [char_of (48 + n mod 10)])"

declare str_nat.simps [simp del]

definition str_int :: "int \<Rightarrow> string" where
  "str_int i = (if i < 0 then CHR ''-'' # str_nat (nat (- i)) else str_nat (nat i))"

text \<open>
  \<open>int(s)\<close> on a string: surrounding whitespace is ignored, one sign is allowed, then
  decimal digits, where a single underscore may stand between two digits. Anything else
  raises ValueError.
\<close>

definition is_digit :: "char \<Rightarrow> bool" where
  "is_digit c = (48 \<le> (of_char c :: nat) \<and> (of_char c :: nat) \<le> 57)"

definition digit_val :: "char \<Rightarrow> nat" where
  "digit_val c = of_char c - 48"

fun parse_digits :: "nat \<Rightarrow> string \<Rightarrow> nat option" where
  "parse_digits acc [] = Some acc"
| "parse_digits acc [c] = (if is_digit c then Some (10 * acc + digit_val c) else None)"
| "parse_digits acc (c # d # cs) =
     (if is_digit c then parse_digits (10 * acc + digit_val c) (d # cs)
      else if c = CHR ''_'' \<and> is_digit d then parse_digits (10 * acc + digit_val d) cs
      else None)"

definition parse_nat :: "string \<Rightarrow> nat option" where
  "parse_nat s = (case s of [] \<Rightarrow> None
                  | c # cs \<Rightarrow> if is_digit c then parse_digits (digit_val c) cs else None)"

definition py_int :: "string \<Rightarrow> error + int" where
  "py_int s =
     (let t = strip s;
          r = (case t of
                 [] \<Rightarrow> None
               | c # cs \<Rightarrow>
                   if c = CHR ''-'' then map_option (\<lambda>n. - int n) (parse_nat cs)
                   else if c = CHR ''+'' then map_option int (parse_nat cs)
                   else map_option int (parse_nat t))
      in case r of None \<Rightarrow> Inl ValueError | Some i \<Rightarrow> Inr i)"

section \<open>What compose.py takes from its libraries\<close>

text \<open>
  shapely geometries are values of a type \<open>'g\<close>; a coordinate sequence is a list of
  points. The operations of shapely, of the dewarping grid and of tabulate that compose.py
  calls are the fields of one record, so that every function below is given them as it is
  given its other arguments.
\<close>

type_synonym coords = "(real \<times> real) list"

datatype headers = Firstrow | NoHeaders

record 'g libs =
  is_empty :: "'g \<Rightarrow> bool"                   \<comment> \<open>\<open>geom.is_empty\<close>\<close>
  exterior_coords :: "'g \<Rightarrow> coords"            \<comment> \<open>\<open>geom.exterior.coords\<close>\<close>
  cascaded_union :: "'g list \<Rightarrow> 'g"            \<comment> \<open>\<open>shapely.ops.cascaded_union\<close>\<close>
  geom_type :: "'g \<Rightarrow> string"                  \<comment> \<open>\<open>geom.geom_type\<close>\<close>
  convex_hull :: "'g \<Rightarrow> 'g"                    \<comment> \<open>\<open>geom.convex_hull\<close>\<close>
  distance :: "'g \<Rightarrow> 'g \<Rightarrow> real"          \<comment> \<open>\<open>a.distance(b)\<close>\<close>
  grid_inverse :: "coords \<Rightarrow> coords"            \<comment> \<open>\<open>page.dewarper.grid.inverse\<close>\<close>
  box_intersection :: "real \<Rightarrow> real \<Rightarrow> coords \<Rightarrow> coords"
    \<comment> \<open>\<open>Polygon(c).intersection(box(0, 0, w, h)).exterior.coords\<close>\<close>
  page_size :: "real \<times> real"                   \<comment> \<open>\<open>page.size(False)\<close>\<close>
  tabulate :: "string list list \<Rightarrow> headers \<Rightarrow> string"
    \<comment> \<open>\<open>tabulate(data, tablefmt="psql", headers=...)\<close>\<close>

definition polygon_union :: "'g libs \<Rightarrow> 'g list \<Rightarrow> 'g" where
  "polygon_union L geoms =
     (let shape = cascaded_union L geoms
      in if geom_type L shape \<noteq> ''Polygon'' then convex_hull L shape else shape)"

text \<open>\<open>Document.rewarp\<close>: the grid's inverse, then the clip to the page.\<close>

definition rewarp :: "'g libs \<Rightarrow> coords \<Rightarrow> coords" where
  "rewarp L cs =
     (let warped_coords = grid_inverse L cs;
          (width, height) = page_size L
      in box_intersection L width height warped_coords)"

section \<open>Lines, blocks and the input of a page\<close>

record 'g line =
  image_space_polygon :: 'g
  confidence :: real

record 'g block =
  block_image_space_polygon :: 'g

text \<open>
  The dicts \<open>regions.by_path\<close> and \<open>lines.by_path\<close> are iterated, so they are lists of
  items in the dict's order; \<open>order\<close> is \<open>order_data["orders"]["*"]\<close>.
\<close>

record 'g input =
  regions_by_path :: "(path \<times> 'g block) list"
  lines_by_path :: "(path \<times> 'g line) list"
  min_confidence :: real
  sorted_ocr :: "(path \<times> string) list"
  order :: "string list"

section \<open>Page XML\<close>

text \<open>
  Modelled from the spec: the Page XML tree of \<open>origami.pagexml.pagexml\<close>, which is not
  among the sources. An element has a tag, an id, the Coords it was given, the TextEquiv it
  was given and its child elements in document order; \<open>append_region\<close>,
  \<open>append_text_region\<close> and \<open>append_text_line\<close> add a child at the end, \<open>remove\<close>
  takes it out again, \<open>prepend_coords\<close> and \<open>append_coords\<close> set the Coords.
\<close>

datatype px_element =
  Element (px_tag: string) (px_id: string) (px_coords: "coords option")
          (px_text_equiv: "string option") (px_children: "px_element list")

datatype warning = TableWasEmpty path string
  \<comment> \<open>\<open>logging.warning("table %s was empty on page %s.")\<close>\<close>

record px_document =
  px_regions :: "px_element list"
  warnings :: "warning list"

section \<open>PlainTextComposition\<close>

record composition =
  line_separator :: string
  block_separator :: string
  comp_texts :: "string list"
  comp_path :: "path option"

definition PlainTextComposition :: "string \<Rightarrow> string \<Rightarrow> composition" where
  "PlainTextComposition ls bs =
     \<lparr>line_separator = ls, block_separator = bs, comp_texts = [], comp_path = None\<rparr>"

definition append_text :: "composition \<Rightarrow> path \<Rightarrow> string \<Rightarrow> composition" where
  "append_text c p t =
     (let t' = strip t in
      if t' = [] then c
      else
        let c1 = (case comp_path c of
                    None \<Rightarrow> c
                  | Some prev \<Rightarrow>
                      if take 3 p \<noteq> take 3 prev
                      then c\<lparr>comp_texts := comp_texts c @ [block_separator c]\<rparr>
                      else c)
        in c1\<lparr>comp_path := Some p, comp_texts := comp_texts c1 @ [t' @ [CHR 0x0A]]\<rparr>)"

definition comp_text :: "composition \<Rightarrow> string" where
  "comp_text c = concat (comp_texts c)"

text \<open>Feeding a sequence of fragments to one composition, in order.\<close>

definition append_all :: "composition \<Rightarrow> (path \<times> string) list \<Rightarrow> composition" where
  "append_all c frags = foldl (\<lambda>c (p, t). append_text c p t) c frags"

subsection \<open>The separator rule as the specification words it\<close>

datatype piece = Fragment string | Separator

text \<open>
  The fragments that survive stripping, and the pieces the specification asks for: every
  surviving fragment, with one separator between two neighbours whose block-path prefixes
  (the first three segments) differ.
\<close>

definition kept :: "(path \<times> string) list \<Rightarrow> (path \<times> string) list" where
  "kept frags = filter (\<lambda>(p, t). t \<noteq> []) (map (\<lambda>(p, t). (p, strip t)) frags)"

fun pieces :: "(path \<times> string) list \<Rightarrow> piece list" where
  "pieces [] = []"
| "pieces [(p, t)] = [Fragment t]"
| "pieces ((p, t) # (q, u) # r) =
     Fragment t # (if take 3 p \<noteq> take 3 q then [Separator] else []) @ pieces ((q, u) # r)"

text \<open>The pieces that follow a composition whose last emitted path is known.\<close>

fun junction :: "path option \<Rightarrow> (path \<times> string) list \<Rightarrow> piece list" where
  "junction None ks = pieces ks"
| "junction (Some prev) [] = []"
| "junction (Some prev) ((q, u) # r) =
     (if take 3 q \<noteq> take 3 prev then [Separator] else []) @ pieces ((q, u) # r)"

fun transitions :: "path list \<Rightarrow> nat" where
  "transitions [] = 0"
| "transitions [p] = 0"
| "transitions (p # q # r) = (if take 3 p \<noteq> take 3 q then 1 else 0) + transitions (q # r)"

fun render :: "string \<Rightarrow> piece \<Rightarrow> string" where
  "render sep (Fragment t) = t @ [CHR 0x0A]"
| "render sep Separator = sep"

section \<open>The regions\<close>

text \<open>
  Each class is a record of its attributes. A dict that is only read by key is a map; the
  sets and defaultdicts of TableRegion are sets and total functions (with the default as
  the value of an absent key).
\<close>

record 'g text_region =
  tr_polygon :: 'g
  tr_block_path :: path
  tr_lines :: "path \<rightharpoonup> 'g line"
  tr_line_texts :: "path \<rightharpoonup> string"
  tr_order :: "path list"

record 'g table_region =
  tb_lines :: "path \<rightharpoonup> 'g line"
  tb_block_path :: path
  tb_divisions :: "int set"
  tb_rows :: "int \<Rightarrow> int set"
  tb_columns :: "int set"
  tb_texts :: "int \<times> int \<times> int \<Rightarrow> (path \<times> string) list"   \<comment> \<open>key (division, row, column)\<close>
  tb_blocks :: "int \<times> int \<times> int \<rightharpoonup> 'g block"              \<comment> \<open>key (column, division, row)\<close>

record 'g graphic_region =
  gr_block :: "'g block"
  gr_lines :: "path \<rightharpoonup> 'g line"
  gr_block_path :: path

record 'g merged_text_region =
  mt_block_path :: path
  mt_polygon :: 'g
  mt_lines :: "(path \<times> 'g line) list"

datatype 'g region =
    TextRegion "'g text_region"
  | TableRegion "'g table_region"
  | GraphicRegion "'g graphic_region"
  | MergedTextRegion "'g merged_text_region"

datatype region_class = TextRegion_class | TableRegion_class | GraphicRegion_class

fun isinstance :: "'g region \<Rightarrow> region_class \<Rightarrow> bool" where
  "isinstance (TextRegion r) c = (c = TextRegion_class)"
| "isinstance (TableRegion r) c = (c = TableRegion_class)"
| "isinstance (GraphicRegion r) c = (c = GraphicRegion_class)"
| "isinstance (MergedTextRegion r) c = False"

text \<open>
  A Document. \<open>doc_mapping\<close> is \<open>TableRegionCombinator(...).mapping\<close>, a class of
  \<open>origami.batch.core.utils\<close> that is not among the sources: the mapping is an argument
  of the constructor below. \<open>doc_regions\<close> is the dict \<open>_regions\<close> in insertion order.
\<close>

record 'g document =
  page_path :: string
  doc_input :: "'g input"
  doc_mapping :: "path \<rightharpoonup> path list"
  region_lines :: "path \<Rightarrow> (path \<times> 'g line) list"
  doc_regions :: "(path \<times> 'g region) list"

definition transform :: "'g libs \<Rightarrow> 'g \<Rightarrow> coords" where
  "transform L g = rewarp L (exterior_coords L g)"

text \<open>\<open>dict(items)\<close>: a later item with the same key wins.\<close>

definition dict :: "('k \<times> 'v) list \<Rightarrow> ('k \<rightharpoonup> 'v)" where
  "dict items = map_of (rev items)"

definition blocks_and_lines ::
  "'g document \<Rightarrow> path \<Rightarrow> error + ((path \<times> 'g block) list \<times> (path \<rightharpoonup> 'g line))" where
  "blocks_and_lines doc block_path =
     bind_res (lookup (doc_mapping doc) block_path) (\<lambda>paths.
     bind_res (map_res (\<lambda>p. bind_res (lookup (dict (regions_by_path (doc_input doc))) p)
                               (\<lambda>b. Inr (p, b))) paths) (\<lambda>blocks.
     Inr (blocks, dict (concat (map (region_lines doc) paths)))))"

subsection \<open>MergedTextRegion\<close>

definition MergedTextRegion_init ::
  "'g libs \<Rightarrow> path \<Rightarrow> (path \<times> 'g line) list \<Rightarrow> 'g merged_text_region" where
  "MergedTextRegion_init L block_path lines =
     \<lparr>mt_block_path = block_path,
      mt_polygon = polygon_union L (map (\<lambda>(p, l). image_space_polygon l) lines),
      mt_lines = lines\<rparr>"

subsection \<open>TextRegion\<close>

definition TextRegion_init :: "'g document \<Rightarrow> path \<Rightarrow> error + 'g text_region" where
  "TextRegion_init doc block_path =
     bind_res (blocks_and_lines doc block_path) (\<lambda>(blocks, lines).
     if length blocks \<noteq> 1 then Inl AssertionError
     else Inr \<lparr>tr_polygon = block_image_space_polygon (snd (hd blocks)),
               tr_block_path = block_path,
               tr_lines = lines,
               tr_line_texts = Map.empty,
               tr_order = []\<rparr>)"

definition add_text :: "'g text_region \<Rightarrow> path \<Rightarrow> string \<Rightarrow> 'g text_region" where
  "add_text r line_path text =
     r\<lparr>tr_order := tr_order r @ [line_path],
       tr_line_texts := (tr_line_texts r)(line_path \<mapsto> text)\<rparr>"

definition get_line_text :: "'g text_region \<Rightarrow> path \<Rightarrow> error + string" where
  "get_line_text r line_path = lookup (tr_line_texts r) line_path"



text \<open>
  The body of the loop over \<open>_order\<close> in \<open>TextRegion.export_page_xml\<close>: the TextLine
  elements appended so far are the state.
\<close>

definition export_text_line ::
  "'g libs \<Rightarrow> 'g text_region \<Rightarrow> path \<Rightarrow> px_element list \<Rightarrow> error + px_element list" where
  "export_text_line L r line_path px_lines =
     bind_res (lookup (tr_lines r) line_path) (\<lambda>line.
     if is_empty L (image_space_polygon line) then
       bind_res (lookup (tr_line_texts r) line_path) (\<lambda>t.
       if t \<noteq> [] then Inl (EmptyGeometry line_path t (confidence line))
       else Inr px_lines)
     else
       bind_res (lookup (tr_line_texts r) line_path) (\<lambda>t.
       Inr (px_lines @
            [Element ''TextLine'' (join ''-'' line_path)
               (Some (transform L (image_space_polygon line))) (Some t) []])))"


subsection \<open>GraphicRegion\<close>

definition GraphicRegion_init :: "'g document \<Rightarrow> path \<Rightarrow> error + 'g graphic_region" where
  "GraphicRegion_init doc block_path =
     bind_res (blocks_and_lines doc block_path) (\<lambda>(blocks, lines).
     if length blocks \<noteq> 1 then Inl AssertionError
     else Inr \<lparr>gr_block = snd (hd blocks), gr_lines = lines, gr_block_path = block_path\<rparr>)"

definition GraphicRegion_export_page_xml ::
  "'g libs \<Rightarrow> 'g graphic_region \<Rightarrow> px_document \<Rightarrow> px_document" where
  "GraphicRegion_export_page_xml L r px =
     px\<lparr>px_regions := px_regions px @
       [Element ''GraphicRegion'' (join ''-'' (gr_block_path r))
          (Some (transform L (block_image_space_polygon (gr_block r)))) None []]\<rparr>"

subsection \<open>TableRegion\<close>

text \<open>
  \<open>block_id, division, row, column = map(int, path[2].split("."))\<close> for every block of
  the table; the new entry of \<open>_blocks\<close> is keyed (column, division, row).
\<close>

definition add_table_block ::
  "path \<times> 'g block \<Rightarrow> (int \<times> int \<times> int \<rightharpoonup> 'g block) \<Rightarrow> error + (int \<times> int \<times> int \<rightharpoonup> 'g block)" where
  "add_table_block pb blocks =
     bind_res (index (fst pb) 2) (\<lambda>seg.
     bind_res (map_res py_int (split CHR ''.'' seg)) (\<lambda>ints.
     case ints of
       [block_id, division, row, column] \<Rightarrow> Inr (blocks((column, division, row) \<mapsto> snd pb))
     | _ \<Rightarrow> Inl ValueError))"

definition TableRegion_init :: "'g document \<Rightarrow> path \<Rightarrow> error + 'g table_region" where
  "TableRegion_init doc block_path =
     bind_res (blocks_and_lines doc block_path) (\<lambda>(blocks, lines).
     bind_res (for_each add_table_block blocks Map.empty) (\<lambda>bm.
     Inr \<lparr>tb_lines = lines,
          tb_block_path = block_path,
          tb_divisions = {},
          tb_rows = (\<lambda>d. {}),
          tb_columns = {},
          tb_texts = (\<lambda>k. []),
          tb_blocks = bm\<rparr>))"

text \<open>\<open>append_cell_text\<close> once its grid is three integers.\<close>

definition append_cell ::
  "'g table_region \<Rightarrow> int \<times> int \<times> int \<Rightarrow> path \<Rightarrow> string \<Rightarrow> 'g table_region" where
  "append_cell tb grid line_path text =
     (case grid of (division, row, column) \<Rightarrow>
        tb\<lparr>tb_divisions := insert division (tb_divisions tb),
           tb_rows := (tb_rows tb)(division := insert row (tb_rows tb division)),
           tb_columns := insert column (tb_columns tb),
           tb_texts := (tb_texts tb)((division, row, column) :=
                         tb_texts tb (division, row, column) @ [(line_path, text)])\<rparr>)"

definition append_cell_text ::
  "'g table_region \<Rightarrow> string list \<Rightarrow> path \<Rightarrow> string \<Rightarrow> error + 'g table_region" where
  "append_cell_text tb grid line_path text =
     bind_res (map_res py_int grid) (\<lambda>ints.
     case ints of
       [division, row, column] \<Rightarrow> Inr (append_cell tb (division, row, column) line_path text)
     | _ \<Rightarrow> Inl ValueError)"

text \<open>\<open>to_text\<close>. The loops only append, so they are written as the lists they build.\<close>

definition cell_text :: "'g table_region \<Rightarrow> int \<Rightarrow> int \<Rightarrow> int \<Rightarrow> string" where
  "cell_text tb division row column =
     join [CHR 0x0A] (map (\<lambda>(p, s). strip s) (tb_texts tb (division, row, column)))"

definition table_data :: "'g table_region \<Rightarrow> string list list" where
  "table_data tb =
     concat (map (\<lambda>division.
               map (\<lambda>row. map (cell_text tb division row) (sorted_list_of_set (tb_columns tb)))
                   (sorted_list_of_set (tb_rows tb division)))
             (sorted_list_of_set (tb_divisions tb)))"

definition n_rows :: "'g table_region \<Rightarrow> nat list" where
  "n_rows tb =
     map (\<lambda>division. length (sorted_list_of_set (tb_rows tb division)))
         (sorted_list_of_set (tb_divisions tb))"

definition to_text :: "'g libs \<Rightarrow> 'g table_region \<Rightarrow> string" where
  "to_text L tb =
     (if length (sorted_list_of_set (tb_columns tb)) = 1
      then join [CHR 0x0A] (map concat (table_data tb))
      else tabulate L (table_data tb)
             (if length (n_rows tb) \<ge> 2 \<and> n_rows tb ! 0 = 1 then Firstrow else NoHeaders))"


text \<open>
  \<open>export_page_xml\<close>, one function per loop body. The state of a loop is the pair of
  the child elements its parent holds so far and the shapes collected so far. An element
  that the source appends first and removes when it stayed empty is appended here only
  when it stays.
\<close>

text \<open>\<open>"%s.%d" % (s, n)\<close>, the id of a table sub-level.\<close>

definition dotted :: "string \<Rightarrow> int \<Rightarrow> string" where
  "dotted s n = s @ ''.'' @ str_int n"

definition export_cell_line :: "'g libs \<Rightarrow> 'g table_region \<Rightarrow> path \<times> string \<Rightarrow> error + px_element" where
  "export_cell_line L tb lt =
     bind_res (lookup (tb_lines tb) (fst lt)) (\<lambda>line.
     Inr (Element ''TextLine'' (join ''-'' (fst lt))
            (Some (transform L (image_space_polygon line))) (Some (snd lt)) []))"

definition export_cell ::
  "'g libs \<Rightarrow> 'g table_region \<Rightarrow> string \<Rightarrow> int \<Rightarrow> int \<Rightarrow> int \<Rightarrow>
   px_element list \<times> 'g list \<Rightarrow> error + (px_element list \<times> 'g list)" where
  "export_cell L tb division_id column division row st =
     (case tb_blocks tb (column, division, row) of
        None \<Rightarrow> Inr st
      | Some block \<Rightarrow>
          if is_empty L (block_image_space_polygon block) then Inr st
          else
            bind_res (map_res (export_cell_line L tb) (tb_texts tb (division, row, column)))
              (\<lambda>px_lines.
            Inr (fst st @ [Element ''TextRegion'' (dotted division_id row)
                             (Some (transform L (block_image_space_polygon block))) None px_lines],
                 snd st @ [block_image_space_polygon block])))"

definition export_division ::
  "'g libs \<Rightarrow> 'g table_region \<Rightarrow> string \<Rightarrow> int \<Rightarrow> int \<Rightarrow>
   px_element list \<times> 'g list \<Rightarrow> error + (px_element list \<times> 'g list)" where
  "export_division L tb column_id column division st =
     (let division_id = dotted column_id division;
          rows = sorted_list_of_set (tb_rows tb division)
      in bind_res (for_each (export_cell L tb division_id column division) rows ([], []))
           (\<lambda>(px_cells, cell_shapes).
         if cell_shapes \<noteq> [] then
           let division_shape = polygon_union L cell_shapes
           in Inr (fst st @ [Element ''TextRegion'' division_id
                               (Some (transform L division_shape)) None px_cells],
                   snd st @ [division_shape])
         else Inr st))"

definition export_column ::
  "'g libs \<Rightarrow> 'g table_region \<Rightarrow> string \<Rightarrow> int \<Rightarrow>
   px_element list \<times> 'g list \<Rightarrow> error + (px_element list \<times> 'g list)" where
  "export_column L tb table_id column st =
     (let column_id = dotted table_id column;
          divisions = sorted_list_of_set (tb_divisions tb)
      in bind_res (for_each (export_division L tb column_id column) divisions ([], []))
           (\<lambda>(px_divisions, division_shapes).
         if division_shapes \<noteq> [] then
           let column_shape = polygon_union L division_shapes
           in Inr (fst st @ [Element ''TextRegion'' column_id
                               (Some (transform L column_shape)) None px_divisions],
                   snd st @ [column_shape])
         else Inr st))"

definition TableRegion_export_page_xml ::
  "'g libs \<Rightarrow> string \<Rightarrow> 'g table_region \<Rightarrow> px_document \<Rightarrow> error + px_document" where
  "TableRegion_export_page_xml L document_page_path tb px =
     (let table_id = join ''-'' (tb_block_path tb);
          columns = sorted_list_of_set (tb_columns tb)
      in bind_res (for_each (export_column L tb table_id) columns ([], []))
           (\<lambda>(px_columns, column_shapes).
         if column_shapes \<noteq> [] then
           Inr (px\<lparr>px_regions := px_regions px @
                  [Element ''TableRegion'' table_id
                     (Some (transform L (polygon_union L column_shapes))) None px_columns]\<rparr>)
         else
           Inr (px\<lparr>warnings := warnings px @
                  [TableWasEmpty (tb_block_path tb) document_page_path]\<rparr>)))"

section \<open>Document\<close>

text \<open>
  \<open>region_lines[line_path[:3]].append((line_path, line))\<close> for every item of
  \<open>lines.by_path\<close>, starting from an empty defaultdict of lists.
\<close>

definition collect_region_lines ::
  "(path \<times> 'g line) list \<Rightarrow> path \<Rightarrow> (path \<times> 'g line) list" where
  "collect_region_lines items =
     foldl (\<lambda>rl item. rl(take 3 (fst item) := rl (take 3 (fst item)) @ [item])) (\<lambda>k. []) items"

definition construct :: "region_class \<Rightarrow> 'g document \<Rightarrow> path \<Rightarrow> error + 'g region" where
  "construct cls doc block_path =
     (case cls of
        TextRegion_class \<Rightarrow> bind_res (TextRegion_init doc block_path) (\<lambda>r. Inr (TextRegion r))
      | TableRegion_class \<Rightarrow> bind_res (TableRegion_init doc block_path) (\<lambda>r. Inr (TableRegion r))
      | GraphicRegion_class \<Rightarrow>
          bind_res (GraphicRegion_init doc block_path) (\<lambda>r. Inr (GraphicRegion r)))"

text \<open>\<open>Document._add\<close>: the region of the path, created when there is none yet.\<close>

definition add ::
  "'g document \<Rightarrow> region_class \<Rightarrow> path \<Rightarrow> error + ('g document \<times> 'g region)" where
  "add doc cls block_path =
     bind_res
       (case map_of (doc_regions doc) block_path of
          None \<Rightarrow>
            bind_res (construct cls doc block_path) (\<lambda>region.
            Inr (doc\<lparr>doc_regions := AList.update block_path region (doc_regions doc)\<rparr>, region))
        | Some region \<Rightarrow> Inr (doc, region))
       (\<lambda>(doc', region).
          if isinstance region cls then Inr (doc', region) else Inl AssertionError)"

text \<open>
  The body of the loop over \<open>input.sorted_ocr\<close> in \<open>Document.__init__\<close>. The region
  that \<open>_add\<close> returns is changed in place by \<open>append_cell_text\<close> or \<open>add_text\<close>; here
  the changed region is stored back under its path.
\<close>

definition add_ocr_line :: "path \<times> string \<Rightarrow> 'g document \<Rightarrow> error + 'g document" where
  "add_ocr_line lt doc =
     (let line_path = fst lt; ocr_text = snd lt; block_path = take 3 line_path
      in bind_res (index block_path 2) (\<lambda>seg.
         let table_path = split CHR ''.'' seg
         in if length table_path > 1 then
              if take 2 block_path \<noteq> [''regions'', ''TABULAR''] then Inl AssertionError
              else
                let base_block_path = take 2 block_path @ [hd table_path]
                in bind_res (add doc TableRegion_class base_block_path) (\<lambda>(doc', region).
                   case region of
                     TableRegion tb \<Rightarrow>
                       bind_res (append_cell_text tb (tl table_path) line_path ocr_text) (\<lambda>tb'.
                       Inr (doc'\<lparr>doc_regions :=
                              AList.update base_block_path (TableRegion tb') (doc_regions doc')\<rparr>))
                   | _ \<Rightarrow> Inl (AttributeError ''append_cell_text''))
            else
              if take 2 block_path \<noteq> [''regions'', ''TEXT''] then Inl AssertionError
              else
                bind_res (add doc TextRegion_class block_path) (\<lambda>(doc', region).
                case region of
                  TextRegion r \<Rightarrow>
                    Inr (doc'\<lparr>doc_regions :=
                           AList.update block_path (TextRegion (add_text r line_path ocr_text))
                             (doc_regions doc')\<rparr>)
                | _ \<Rightarrow> Inl (AttributeError ''add_text''))))"

definition add_graphic_region :: "path \<times> 'g block \<Rightarrow> 'g document \<Rightarrow> error + 'g document" where
  "add_graphic_region pb doc =
     (if take 2 (fst pb) = [''regions'', ''ILLUSTRATION'']
      then bind_res (add doc GraphicRegion_class (fst pb)) (\<lambda>(doc', region). Inr doc')
      else Inr doc)"

definition Document ::
  "string \<Rightarrow> 'g input \<Rightarrow> (path \<rightharpoonup> path list) \<Rightarrow> error + 'g document" where
  "Document page_path' inp mapping =
     (let doc0 = \<lparr>page_path = page_path',
                  doc_input = inp,
                  doc_mapping = mapping,
                  region_lines = collect_region_lines (lines_by_path inp),
                  doc_regions = []\<rparr>
      in bind_res (for_each add_ocr_line (sorted_ocr inp) doc0) (\<lambda>doc1.
         for_each add_graphic_region (regions_by_path inp) doc1))"


definition get :: "'g document \<Rightarrow> path \<Rightarrow> error + 'g region option" where
  "get doc block_path =
     (case map_of (doc_regions doc) block_path of
        Some region \<Rightarrow> Inr (Some region)
      | None \<Rightarrow>
          let confidences = map (\<lambda>(p, l). confidence l) (region_lines doc block_path);
              min_confidence' = min_confidence (doc_input doc)
          in if list_all (\<lambda>c. c < min_confidence') confidences then Inr None
             else Inl (NoTextFound block_path confidences))"

definition paths :: "'g document \<Rightarrow> path list" where
  "paths doc = sort (map fst (doc_regions doc))"

section \<open>RegionReadingOrder\<close>

record 'g rro =
  ordered_regions :: "(path \<times> 'g region) list"
  regionless_text_lines :: "path list"
  region_indices :: "path \<Rightarrow> int"      \<comment> \<open>a defaultdict(int)\<close>

definition observe_index :: "path \<Rightarrow> (path \<Rightarrow> int) \<Rightarrow> error + (path \<Rightarrow> int)" where
  "observe_index p ri =
     bind_res (index p 2) (\<lambda>seg.
     bind_res (py_int seg) (\<lambda>i.
     Inr (ri(take 2 p := max (ri (take 2 p)) i))))"

definition flush_regionless_lines ::
  "'g libs \<Rightarrow> 'g document \<Rightarrow> 'g rro \<Rightarrow> error + 'g rro" where
  "flush_regionless_lines L doc s =
     (if regionless_text_lines s = [] then Inr s
      else
        let base_path = take 2 (hd (regionless_text_lines s))
        in if \<not> list_all (\<lambda>p. take 2 p = base_path) (regionless_text_lines s)
           then Inl AssertionError
           else
             let new_region_index = region_indices s base_path + 1;
                 new_region_path = base_path @ [str_int new_region_index]
             in bind_res
                  (map_res (\<lambda>p. bind_res (lookup (dict (lines_by_path (doc_input doc))) p)
                                   (\<lambda>l. Inr (p, l)))
                     (regionless_text_lines s)) (\<lambda>lines.
                Inr (s\<lparr>region_indices := (region_indices s)(base_path := new_region_index),
                       ordered_regions := ordered_regions s @
                         [(new_region_path,
                           MergedTextRegion (MergedTextRegion_init L new_region_path lines))],
                       regionless_text_lines := []\<rparr>)))"

definition is_adjacent :: "'g libs \<Rightarrow> 'g document \<Rightarrow> 'g rro \<Rightarrow> path \<Rightarrow> error + bool" where
  "is_adjacent L doc s line_path =
     (if regionless_text_lines s = [] then Inr False
      else if take 3 (last (regionless_text_lines s)) \<noteq> take 3 line_path then Inr False
      else
        bind_res (lookup (dict (lines_by_path (doc_input doc))) (last (regionless_text_lines s)))
          (\<lambda>l0.
        bind_res (lookup (dict (lines_by_path (doc_input doc))) line_path) (\<lambda>l1.
        if distance L (image_space_polygon l0) (image_space_polygon l1) < 5 then Inr True
        else Inr True)))"

definition add_regionless_line ::
  "'g libs \<Rightarrow> 'g document \<Rightarrow> 'g rro \<Rightarrow> path \<Rightarrow> error + 'g rro" where
  "add_regionless_line L doc s line_path =
     bind_res (is_adjacent L doc s line_path) (\<lambda>adjacent.
     bind_res (if \<not> adjacent then flush_regionless_lines L doc s else Inr s) (\<lambda>s'.
     Inr (s'\<lparr>regionless_text_lines := regionless_text_lines s' @ [line_path]\<rparr>)))"

definition append :: "'g libs \<Rightarrow> 'g document \<Rightarrow> path \<Rightarrow> 'g rro \<Rightarrow> error + 'g rro" where
  "append L doc path' s =
     (if length path' = 3 then
        bind_res (flush_regionless_lines L doc s) (\<lambda>s'.
        bind_res (get doc path') (\<lambda>region.
        case region of
          None \<Rightarrow> Inr s'
        | Some r \<Rightarrow> Inr (s'\<lparr>ordered_regions := ordered_regions s' @ [(path', r)]\<rparr>)))
      else if length path' > 3 then
        if take 2 path' \<noteq> [''regions'', ''TEXT''] then Inl AssertionError
        else add_regionless_line L doc s path'
      else Inl (IllegalRegionLinePath path'))"

definition close :: "'g libs \<Rightarrow> 'g document \<Rightarrow> 'g rro \<Rightarrow> error + 'g rro" where
  "close L doc s = flush_regionless_lines L doc s"

text \<open>The state \<open>__init__\<close> has built when it starts to walk the reading order.\<close>

definition RegionReadingOrder_start :: "'g document \<Rightarrow> error + 'g rro" where
  "RegionReadingOrder_start doc =
     bind_res (for_each observe_index (paths doc) (\<lambda>k. 0)) (\<lambda>ri.
     Inr \<lparr>ordered_regions = [], regionless_text_lines = [], region_indices = ri\<rparr>)"


section \<open>ComposeProcessor.export_plain_text\<close>





section \<open>A concrete page for the instances below\<close>

text \<open>
  The instances need the library operations at concrete values. Here a geometry is the
  ring of its points, empty when it has none; the page is 100 by 100 and the dewarping grid
  is the identity. The clip keeps the points inside the page, which is what the
  intersection with the page box gives for a ring that lies wholly inside or wholly
  outside the page, the only rings used. The distance of two rings is the horizontal
  distance of their first points, and a table is laid out with bars between the cells.
\<close>

definition example_libs :: "coords libs" where
  "example_libs =
     \<lparr>is_empty = (\<lambda>g. g = []),
      exterior_coords = (\<lambda>g. g),
      cascaded_union = concat,
      geom_type = (\<lambda>g. ''Polygon''),
      convex_hull = (\<lambda>g. g),
      distance = (\<lambda>a b. case (a, b) of ((x, y) # r, (x', y') # r') \<Rightarrow> \<bar>x - x'\<bar> | _ \<Rightarrow> 0),
      grid_inverse = (\<lambda>cs. cs),
      box_intersection = (\<lambda>w h cs. filter (\<lambda>(x, y). 0 \<le> x \<and> x \<le> w \<and> 0 \<le> y \<and> y \<le> h) cs),
      page_size = (100, 100),
      tabulate = (\<lambda>rows h. (case h of Firstrow \<Rightarrow> ''H:'' | NoHeaders \<Rightarrow> '''')
                              @ join ''\<newline>'' (map (join ''|'') rows))\<rparr>"

definition example_line :: "real \<Rightarrow> real \<Rightarrow> coords line" where
  "example_line x c =
     \<lparr>image_space_polygon = [(x, 10), (x + 5, 10), (x + 5, 20), (x, 10)], confidence = c\<rparr>"

definition example_block :: "coords block" where
  "example_block = \<lparr>block_image_space_polygon = [(0, 0), (50, 0), (50, 50), (0, 0)]\<rparr>"

text \<open>
  One text block \<open>regions/TEXT/1\<close> with a recognised line, a line of confidence 0.1 filed
  under \<open>regions/TEXT/2\<close>, and two lines of confidence 0.8 filed under \<open>regions/TEXT/3\<close>,
  all without recognised text.
\<close>

definition example_input :: "coords input" where
  "example_input =
     \<lparr>regions_by_path = [([''regions'', ''TEXT'', ''1''], example_block)],
      lines_by_path =
        [([''regions'', ''TEXT'', ''1'', ''0''], example_line 0 0.9),
         ([''regions'', ''TEXT'', ''2'', ''0''], example_line 10 0.1),
         ([''regions'', ''TEXT'', ''3'', ''0''], example_line 20 0.8),
         ([''regions'', ''TEXT'', ''3'', ''1''], example_line 90 0.8)],
      min_confidence = 0.5,
      sorted_ocr = [([''regions'', ''TEXT'', ''1'', ''0''], ''Hello'')],
      order = [''regions/TEXT/1'']\<rparr>"

definition example_mapping :: "path \<rightharpoonup> path list" where
  "example_mapping = [[''regions'', ''TEXT'', ''1''] \<mapsto> [[''regions'', ''TEXT'', ''1'']]]"

definition example_text_region :: "coords text_region" where
  "example_text_region =
     \<lparr>tr_polygon = block_image_space_polygon example_block,
      tr_block_path = [''regions'', ''TEXT'', ''1''],
      tr_lines = dict [([''regions'', ''TEXT'', ''1'', ''0''], example_line 0 0.9)],
      tr_line_texts = [[''regions'', ''TEXT'', ''1'', ''0''] \<mapsto> ''Hello''],
      tr_order = [[''regions'', ''TEXT'', ''1'', ''0'']]\<rparr>"

definition example_document :: "coords document" where
  "example_document =
     \<lparr>page_path = ''page'',
      doc_input = example_input,
      doc_mapping = example_mapping,
      region_lines = collect_region_lines (lines_by_path example_input),
      doc_regions = [([''regions'', ''TEXT'', ''1''], TextRegion example_text_region)]\<rparr>"


definition far_apart_state :: "coords rro" where
  "far_apart_state =
     \<lparr>ordered_regions = [],
      regionless_text_lines = [[''regions'', ''TEXT'', ''3'', ''0'']],
      region_indices = (\<lambda>k. 0)\<rparr>"





definition empty_px :: px_document where
  "empty_px = \<lparr>px_regions = [], warnings = []\<rparr>"

text \<open>The example input with a second OCR line, filed under an illustration.\<close>

definition misfiled_input :: "coords input" where
  "misfiled_input =
     example_input\<lparr>sorted_ocr :=
       [([''regions'', ''TEXT'', ''1'', ''0''], ''Hello''),
        ([''regions'', ''ILLUSTRATION'', ''7'', ''0''], ''caption'')]\<rparr>"

section \<open>Notions used to state the properties\<close>

text \<open>Two documents that differ at most in their regions.\<close>

definition same_frame :: "'g document \<Rightarrow> 'g document \<Rightarrow> bool" where
  "same_frame a b \<longleftrightarrow> page_path b = page_path a \<and> doc_input b = doc_input a
      \<and> doc_mapping b = doc_mapping a \<and> region_lines b = region_lines a"

text \<open>
  The confidences of the lines of \<open>lines.by_path\<close> filed under a block path, in the
  order of the dict.
\<close>

definition observed_confidences :: "'g input \<Rightarrow> path \<Rightarrow> real list" where
  "observed_confidences inp block_path =
     map (\<lambda>(p, l). confidence l) (filter (\<lambda>(p, l). take 3 p = block_path) (lines_by_path inp))"


text \<open>
  The TableRegion that \<open>__init__\<close> leaves (no cell yet), and the one reached from a
  table by a sequence of \<open>append_cell_text\<close> calls with integer grids.
\<close>

definition table_without_cells ::
  "(path \<rightharpoonup> 'g line) \<Rightarrow> path \<Rightarrow> (int \<times> int \<times> int \<rightharpoonup> 'g block) \<Rightarrow> 'g table_region" where
  "table_without_cells lines block_path blocks =
     \<lparr>tb_lines = lines, tb_block_path = block_path, tb_divisions = {}, tb_rows = (\<lambda>d. {}),
      tb_columns = {}, tb_texts = (\<lambda>k. []), tb_blocks = blocks\<rparr>"

definition cells_appended ::
  "'g table_region \<Rightarrow> ((int \<times> int \<times> int) \<times> path \<times> string) list \<Rightarrow> 'g table_region" where
  "cells_appended tb calls = foldl (\<lambda>tb (grid, p, t). append_cell tb grid p t) tb calls"

text \<open>
  Every set of the grid is finite and every division has a row. The number of rows of
  the table is the number of (division, row) pairs.
\<close>

definition grid_wf :: "'g table_region \<Rightarrow> bool" where
  "grid_wf tb \<longleftrightarrow> finite (tb_divisions tb) \<and> finite (tb_columns tb)
     \<and> (\<forall>d. finite (tb_rows tb d)) \<and> (\<forall>d \<in> tb_divisions tb. tb_rows tb d \<noteq> {})"

definition row_count :: "'g table_region \<Rightarrow> nat" where
  "row_count tb = (\<Sum>d \<in> tb_divisions tb. card (tb_rows tb d))"

text \<open>
  What the table export is measured against. A cell can be rendered when its block exists
  and has a non-empty polygon; a division of a column when one of its rows has such a cell
  in that column; a column when one of its divisions can. The elements of the output
  correspond, in ascending order, to exactly these.
\<close>

definition renderable :: "'g libs \<Rightarrow> 'g table_region \<Rightarrow> int \<Rightarrow> int \<Rightarrow> int \<Rightarrow> bool" where
  "renderable L tb column division row \<longleftrightarrow>
     (case tb_blocks tb (column, division, row) of
        None \<Rightarrow> False
      | Some block \<Rightarrow> \<not> is_empty L (block_image_space_polygon block))"

definition division_renderable :: "'g libs \<Rightarrow> 'g table_region \<Rightarrow> int \<Rightarrow> int \<Rightarrow> bool" where
  "division_renderable L tb column division \<longleftrightarrow>
     (\<exists>row \<in> tb_rows tb division. renderable L tb column division row)"

definition column_renderable :: "'g libs \<Rightarrow> 'g table_region \<Rightarrow> int \<Rightarrow> bool" where
  "column_renderable L tb column \<longleftrightarrow>
     (\<exists>division \<in> tb_divisions tb. division_renderable L tb column division)"

definition cell_element :: "string \<Rightarrow> int \<Rightarrow> px_element \<Rightarrow> bool" where
  "cell_element division_id row e \<longleftrightarrow> px_id e = dotted division_id row"

definition division_element ::
  "'g libs \<Rightarrow> 'g table_region \<Rightarrow> string \<Rightarrow> int \<Rightarrow> int \<Rightarrow> px_element \<Rightarrow> bool" where
  "division_element L tb column_id column division e \<longleftrightarrow>
     px_id e = dotted column_id division
     \<and> list_all2 (cell_element (dotted column_id division))
          (filter (renderable L tb column division) (sorted_list_of_set (tb_rows tb division)))
          (px_children e)"

definition column_element ::
  "'g libs \<Rightarrow> 'g table_region \<Rightarrow> string \<Rightarrow> int \<Rightarrow> px_element \<Rightarrow> bool" where
  "column_element L tb table_id column e \<longleftrightarrow>
     px_id e = dotted table_id column
     \<and> list_all2 (division_element L tb (dotted table_id column) column)
          (filter (division_renderable L tb column) (sorted_list_of_set (tb_divisions tb)))
          (px_children e)"

definition table_element :: "'g libs \<Rightarrow> 'g table_region \<Rightarrow> px_element \<Rightarrow> bool" where
  "table_element L tb e \<longleftrightarrow>
     px_tag e = ''TableRegion'' \<and> px_id e = join ''-'' (tb_block_path tb)
     \<and> list_all2 (column_element L tb (join ''-'' (tb_block_path tb)))
          (filter (column_renderable L tb) (sorted_list_of_set (tb_columns tb)))
          (px_children e)"

text \<open>
  The Document as \<open>__init__\<close> has it before the first OCR line is added, and the
  namespace and class an OCR line must have: \<open>regions/TABULAR\<close> when its block id has
  a dot (a grid suffix), \<open>regions/TEXT\<close> otherwise.
\<close>

definition document_without_regions ::
  "string \<Rightarrow> 'g input \<Rightarrow> (path \<rightharpoonup> path list) \<Rightarrow> 'g document" where
  "document_without_regions pp inp mapping =
     \<lparr>page_path = pp, doc_input = inp, doc_mapping = mapping,
      region_lines = collect_region_lines (lines_by_path inp), doc_regions = []\<rparr>"

definition expected_class :: "path \<Rightarrow> path" where
  "expected_class line_path =
     (if CHR ''.'' \<in> set (line_path ! 2) then [''regions'', ''TABULAR'']
      else [''regions'', ''TEXT''])"

text \<open>
  For the reading-order walk. The indices observed for a namespace/class prefix are the
  integers read from the third segment of the Document's region paths with that prefix;
  the indices allocated so far are those of the Merged-Text regions already in the ordered
  list. \<open>walked\<close> is the state of \<open>RegionReadingOrder.__init__\<close> after it has
  appended the given paths. The invariant of the walk: the counter of a prefix is not
  negative, bounds every observed and allocated index of the prefix and is 0 or one of
  them; the accumulated lines are under \<open>regions/TEXT\<close>; every ordered region is one
  of the Document or a Merged-Text region with a numbered path.
\<close>

definition observed :: "'g document \<Rightarrow> path \<Rightarrow> int set" where
  "observed doc b =
     {i. \<exists>p \<in> set (paths doc). take 2 p = b \<and> (\<exists>seg. index p 2 = Inr seg \<and> py_int seg = Inr i)}"

definition allocated :: "'g rro \<Rightarrow> path \<Rightarrow> int set" where
  "allocated s b =
     {i. \<exists>m. (b @ [str_int i], MergedTextRegion m) \<in> set (ordered_regions s)}"

definition walked :: "'g libs \<Rightarrow> 'g document \<Rightarrow> path list \<Rightarrow> error + 'g rro" where
  "walked L doc ps = bind_res (RegionReadingOrder_start doc) (for_each (append L doc) ps)"

definition rro_inv :: "'g document \<Rightarrow> 'g rro \<Rightarrow> bool" where
  "rro_inv doc s \<longleftrightarrow>
     (\<forall>b. 0 \<le> region_indices s b)
     \<and> (\<forall>b. \<forall>i \<in> observed doc b \<union> allocated s b. i \<le> region_indices s b)
     \<and> (\<forall>b. region_indices s b \<in> insert 0 (observed doc b \<union> allocated s b))
     \<and> (\<forall>p \<in> set (regionless_text_lines s). take 2 p = [''regions'', ''TEXT''])
     \<and> (\<forall>(q, r) \<in> set (ordered_regions s).
           q \<in> set (paths doc) \<or> (\<exists>b i m. q = b @ [str_int i] \<and> r = MergedTextRegion m))"

text \<open>The prefix under which a flush allocates: that of the first accumulated line.\<close>

definition base_path :: "'g rro \<Rightarrow> path" where
  "base_path s = take 2 (hd (regionless_text_lines s))"

section \<open>Concrete tables\<close>

text \<open>
  A table of two columns whose first division has one row, and a table of one column with
  two rows that were recognised in reverse order.
\<close>

definition example_table :: "coords table_region" where
  "example_table =
     cells_appended (table_without_cells Map.empty [''regions'', ''TABULAR'', ''4''] Map.empty)
       [((0, 0, 0), [''regions'', ''TABULAR'', ''4.0.0.0'', ''0''], ''Name''),
        ((0, 0, 1), [''regions'', ''TABULAR'', ''4.0.0.1'', ''0''], '' Age''),
        ((1, 0, 0), [''regions'', ''TABULAR'', ''4.1.0.0'', ''0''], ''Bob''),
        ((1, 0, 1), [''regions'', ''TABULAR'', ''4.1.0.1'', ''0''], ''7'')]"

definition example_list_table :: "coords table_region" where
  "example_list_table =
     cells_appended (table_without_cells Map.empty [''regions'', ''TABULAR'', ''5''] Map.empty)
       [((0, 1, 0), [''regions'', ''TABULAR'', ''5.0.1.0'', ''0''], ''b''),
        ((0, 0, 0), [''regions'', ''TABULAR'', ''5.0.0.0'', ''0''], ''a'')]"

text \<open>
  A table with blocks: the cell (column 0, division 0, row 0) has a polygon, the cell
  (column 0, division 1, row 0) has an empty one, column 1 has no blocks.
\<close>

definition example_grid_table :: "coords table_region" where
  "example_grid_table =
     cells_appended
       (table_without_cells
          (dict [([''regions'', ''TABULAR'', ''4.0.0.0'', ''0''], example_line 0 0.9)])
          [''regions'', ''TABULAR'', ''4'']
          [(0, 0, 0) \<mapsto> example_block, (0, 1, 0) \<mapsto> \<lparr>block_image_space_polygon = []\<rparr>])
       [((0, 0, 0), [''regions'', ''TABULAR'', ''4.0.0.0'', ''0''], ''Name''),
        ((1, 0, 0), [''regions'', ''TABULAR'', ''4.1.0.0'', ''0''], ''Bob''),
        ((0, 0, 1), [''regions'', ''TABULAR'', ''4.0.0.1'', ''0''], ''Age'')]"

section \<open>Properties\<close>

subsection \<open>Exceptions and loops\<close>

lemma bind_res_Inl [simp]: "bind_res (Inl e) f = Inl e"
  by (simp add: bind_res_def)

lemma bind_res_Inr [simp]: "bind_res (Inr v) f = f v"
  by (simp add: bind_res_def)

lemma bind_res_eq_Inr:
  "bind_res m f = Inr y \<longleftrightarrow> (\<exists>v. m = Inr v \<and> f v = Inr y)"
  by (cases m) simp_all

lemma for_each_append:
  "for_each f (xs @ ys) s = bind_res (for_each f xs s) (for_each f ys)"
proof (induction xs arbitrary: s)
  case Nil
  show ?case by simp
next
  case (Cons x xs)
  show ?case by (cases "f x s") (simp_all add: Cons.IH)
qed

lemma for_each_invariant:
  assumes run: "for_each f xs s = Inr s'"
    and base: "P s"
    and step: "\<And>x a b. x \<in> set xs \<Longrightarrow> P a \<Longrightarrow> f x a = Inr b \<Longrightarrow> P b"
  shows "P s'"
  using run base step
proof (induction xs arbitrary: s)
  case Nil
  then show ?case by simp
next
  case (Cons x xs)
  from Cons.prems(1) obtain a where fa: "f x s = Inr a" and rest: "for_each f xs a = Inr s'"
    by (auto simp: bind_res_eq_Inr)
  have "P a" using Cons.prems(2,3) fa by auto
  with rest show ?case using Cons.IH Cons.prems(3) by auto
qed

lemma map_res_eq_Inr:
  "map_res f xs = Inr ys \<Longrightarrow> length ys = length xs \<and> (\<forall>i < length xs. f (xs ! i) = Inr (ys ! i))"
proof (induction xs arbitrary: ys)
  case Nil
  then show ?case by simp
next
  case (Cons x xs)
  from Cons.prems obtain y ys' where y: "f x = Inr y" and r: "map_res f xs = Inr ys'"
    and ys: "ys = y # ys'"
    by (auto simp: bind_res_eq_Inr)
  from Cons.IH [OF r] show ?case
    by (auto simp: ys y nth_Cons split: nat.splits)
qed

lemma map_res_total:
  "(\<And>x. x \<in> set xs \<Longrightarrow> f x = Inr (g x)) \<Longrightarrow> map_res f xs = Inr (map g xs)"
  by (induction xs) simp_all


subsection \<open>The example page\<close>

lemma transform_example:
  "transform example_libs g = filter (\<lambda>(x, y). 0 \<le> x \<and> x \<le> 100 \<and> 0 \<le> y \<and> y \<le> 100) g"
  by (simp add: transform_def rewarp_def example_libs_def)

lemma is_empty_example: "is_empty example_libs g = (g = [])"
  by (simp add: example_libs_def)

subsection \<open>Separators of the plain-text composition\<close>

lemma block_separator_append_text:
  "block_separator (append_text c p t) = block_separator c"
  by (simp add: append_text_def Let_def split: option.splits)

lemma append_text_dropped:
  "strip t = [] \<Longrightarrow> append_text c p t = c"
  by (simp add: append_text_def)

lemma append_text_kept:
  "strip t \<noteq> [] \<Longrightarrow>
   comp_texts (append_text c p t) =
     comp_texts c @ map (render (block_separator c)) (junction (comp_path c) [(p, strip t)])
   \<and> comp_path (append_text c p t) = Some p"
  by (cases "comp_path c") (auto simp add: append_text_def Let_def)

lemma junction_Cons:
  "junction prev ((p, t) # ks) = junction prev [(p, t)] @ junction (Some p) ks"
  by (cases prev; cases ks) auto

lemma append_all_texts:
  "comp_texts (append_all c frags) =
     comp_texts c @ map (render (block_separator c)) (junction (comp_path c) (kept frags))
   \<and> comp_path (append_all c frags) =
     (if kept frags = [] then comp_path c else Some (fst (last (kept frags))))
   \<and> block_separator (append_all c frags) = block_separator c"
proof (induction frags arbitrary: c)
  case Nil
  show ?case by (cases "comp_path c") (simp_all add: append_all_def kept_def)
next
  case (Cons f frags)
  obtain p t where f: "f = (p, t)" by (cases f)
  have step: "append_all c (f # frags) = append_all (append_text c p t) frags"
    by (simp add: append_all_def f)
  show ?case
  proof (cases "strip t = []")
    case True
    then have "kept (f # frags) = kept frags" by (simp add: kept_def f)
    with True Cons.IH [of c] show ?thesis by (simp add: step append_text_dropped)
  next
    case False
    then have k: "kept (f # frags) = (p, strip t) # kept frags" by (simp add: kept_def f)
    from append_text_kept [OF False, of c p]
    have a: "comp_texts (append_text c p t) =
        comp_texts c @ map (render (block_separator c)) (junction (comp_path c) [(p, strip t)])"
      and b: "comp_path (append_text c p t) = Some p" by simp_all
    show ?thesis
      using Cons.IH [of "append_text c p t"]
      by (simp add: step k a b block_separator_append_text
            junction_Cons [of "comp_path c" p "strip t" "kept frags"])
  qed
qed

lemma count_pieces:
  "length (filter (\<lambda>x. x = Separator) (pieces ks)) = transitions (map fst ks)"
  by (induction ks rule: pieces.induct) auto

lemma hd_pieces: "Separator \<notin> set (take 1 (pieces ks))"
  by (induction ks rule: pieces.induct) auto

lemma pieces_Nil_iff: "pieces ks = [] \<longleftrightarrow> ks = []"
  by (induction ks rule: pieces.induct) auto

lemma last_pieces_Fragment: "ks \<noteq> [] \<Longrightarrow> last (pieces ks) = Fragment (snd (last ks))"
  by (induction ks rule: pieces.induct) (auto simp: pieces_Nil_iff)

lemma take1_rev: "take (Suc 0) (rev xs) = (if xs = [] then [] else [last xs])"
  by (induction xs rule: rev_induct) auto

lemma last_pieces: "Separator \<notin> set (take 1 (rev (pieces ks)))"
  by (cases "ks = []") (simp_all add: take1_rev pieces_Nil_iff last_pieces_Fragment)

text \<open>
  C4. Whatever fragments are appended to a fresh composition, its texts are the pieces of
  the fragments that are not blank after stripping: each such fragment followed by a
  newline, and the block separator exactly between two consecutive ones whose block-path
  prefixes differ. So the number of separators is the number of such transitions, the
  first and the last piece are fragments, and a blank fragment leaves neither a piece nor
  a trace in the remembered path.
\<close>

theorem plain_text_separators:
  "comp_texts (append_all (PlainTextComposition ls bs) frags) = map (render bs) (pieces (kept frags))
   \<and> comp_text (append_all (PlainTextComposition ls bs) frags) =
       concat (map (render bs) (pieces (kept frags)))
   \<and> comp_path (append_all (PlainTextComposition ls bs) frags) =
        (if kept frags = [] then None else Some (fst (last (kept frags))))
   \<and> length (filter (\<lambda>x. x = Separator) (pieces (kept frags))) = transitions (map fst (kept frags))
   \<and> Separator \<notin> set (take 1 (pieces (kept frags)))
   \<and> Separator \<notin> set (take 1 (rev (pieces (kept frags))))"
proof -
  let ?c = "PlainTextComposition ls bs"
  have init: "comp_texts ?c = []" "comp_path ?c = None" "block_separator ?c = bs"
    by (simp_all add: PlainTextComposition_def)
  have a: "comp_texts (append_all ?c frags) = map (render bs) (pieces (kept frags))"
    using append_all_texts [of ?c frags] by (simp only: init junction.simps append_Nil)
  have b: "comp_path (append_all ?c frags) =
        (if kept frags = [] then None else Some (fst (last (kept frags))))"
    using append_all_texts [of ?c frags] by (simp only: init)
  show ?thesis
    using a b count_pieces [of "kept frags"] hd_pieces [of "kept frags"] last_pieces [of "kept frags"]
    by (simp only: comp_text_def simp_thms)
qed

theorem plain_text_separators_witness:
  "comp_text (append_all (PlainTextComposition ''\<newline>'' ''--'')
      [([''regions'', ''TEXT'', ''1'', ''0''], '' Hello ''),
       ([''regions'', ''TEXT'', ''1'', ''1''], ''World''),
       ([''regions'', ''TEXT'', ''2'', ''0''], ''   ''),
       ([''regions'', ''TEXT'', ''3'', ''0''], ''End'')]) = ''Hello\<newline>World\<newline>--End\<newline>''"
  using plain_text_separators [of "''\<newline>''" "''--''"
      "[([''regions'', ''TEXT'', ''1'', ''0''], '' Hello ''),
       ([''regions'', ''TEXT'', ''1'', ''1''], ''World''),
       ([''regions'', ''TEXT'', ''2'', ''0''], ''   ''),
       ([''regions'', ''TEXT'', ''3'', ''0''], ''End'')]"]
  by (simp add: kept_def strip_def is_space_def)

subsection \<open>Document.get\<close>

lemma foldl_region_lines:
  "foldl (\<lambda>rl item. rl(take 3 (fst item) := rl (take 3 (fst item)) @ [item])) rl0 items bp =
     rl0 bp @ filter (\<lambda>item. take 3 (fst item) = bp) items"
  by (induction items arbitrary: rl0) auto

lemma collect_region_lines_filter:
  "collect_region_lines items bp = filter (\<lambda>item. take 3 (fst item) = bp) items"
  by (simp add: collect_region_lines_def foldl_region_lines)

lemma add_frame:
  "add doc cls bp = Inr (doc', r) \<Longrightarrow> same_frame doc doc'"
  by (auto simp: add_def same_frame_def bind_res_eq_Inr split: option.splits if_splits)

lemma same_frame_regions [simp]: "same_frame a (b\<lparr>doc_regions := rs\<rparr>) = same_frame a b"
  by (simp add: same_frame_def)

lemma add_ocr_line_cases:
  assumes "add_ocr_line lt doc = Inr doc'"
  shows "\<exists>cls bp d r rs. add doc cls bp = Inr (d, r) \<and> doc' = d\<lparr>doc_regions := rs\<rparr>"
proof -
  from assms obtain seg where seg: "index (take 3 (fst lt)) 2 = Inr seg"
    by (auto simp: add_ocr_line_def Let_def bind_res_eq_Inr)
  show ?thesis
  proof (cases "length (split CHR ''.'' seg) > 1")
    case True
    with assms seg show ?thesis
      unfolding add_ocr_line_def Let_def
      by (simp split: if_splits add: bind_res_eq_Inr)
         (fastforce simp: bind_res_eq_Inr split: region.splits)
  next
    case False
    with assms seg show ?thesis
      unfolding add_ocr_line_def Let_def
      by (simp split: if_splits add: bind_res_eq_Inr)
         (fastforce simp: bind_res_eq_Inr split: region.splits)
  qed
qed

lemma add_ocr_line_frame:
  assumes "add_ocr_line lt doc = Inr doc'"
  shows "same_frame doc doc'"
proof -
  from add_ocr_line_cases [OF assms] obtain cls bp d r rs
    where a: "add doc cls bp = Inr (d, r)" and b: "doc' = d\<lparr>doc_regions := rs\<rparr>" by blast
  from add_frame [OF a] show ?thesis by (simp add: b)
qed

lemma add_graphic_region_frame:
  "add_graphic_region pb doc = Inr doc' \<Longrightarrow> same_frame doc doc'"
  by (auto simp: add_graphic_region_def bind_res_eq_Inr same_frame_def
           split: if_splits dest!: add_frame)

lemma Document_frame:
  assumes "Document pp inp mapping = Inr doc"
  shows "page_path doc = pp \<and> doc_input doc = inp \<and> doc_mapping doc = mapping
         \<and> region_lines doc = collect_region_lines (lines_by_path inp)"
proof -
  let ?doc0 = "\<lparr>page_path = pp, doc_input = inp, doc_mapping = mapping,
                 region_lines = collect_region_lines (lines_by_path inp), doc_regions = []\<rparr>"
  from assms obtain doc1 where
    one: "for_each add_ocr_line (sorted_ocr inp) ?doc0 = Inr doc1" and
    two: "for_each add_graphic_region (regions_by_path inp) doc1 = Inr doc"
    by (auto simp: Document_def Let_def bind_res_eq_Inr)
  have "same_frame ?doc0 doc1"
    by (rule for_each_invariant [OF one])
       (auto simp: same_frame_def dest!: add_ocr_line_frame)
  moreover have "same_frame doc1 doc"
    by (rule for_each_invariant [OF two])
       (auto simp: same_frame_def dest!: add_graphic_region_frame)
  ultimately show ?thesis by (simp add: same_frame_def)
qed

text \<open>
  C2. On a constructed Document, \<open>get\<close> returns the region stored under the block
  path when there is one. When there is none, it returns None if every confidence of the
  lines filed under the path is below the minimum confidence, and raises the error that
  carries the path and these confidences if one of them reaches the minimum.
\<close>

theorem get_region_or_none_or_error:
  assumes "Document pp inp mapping = Inr doc"
  shows "(\<forall>region. map_of (doc_regions doc) block_path = Some region \<longrightarrow>
            get doc block_path = Inr (Some region))
       \<and> (map_of (doc_regions doc) block_path = None
            \<and> (\<forall>c \<in> set (observed_confidences inp block_path). c < min_confidence inp) \<longrightarrow>
            get doc block_path = Inr None)
       \<and> (map_of (doc_regions doc) block_path = None
            \<and> (\<exists>c \<in> set (observed_confidences inp block_path). min_confidence inp \<le> c) \<longrightarrow>
            get doc block_path =
              Inl (NoTextFound block_path (observed_confidences inp block_path)))"
proof -
  from Document_frame [OF assms]
  have inp: "doc_input doc = inp"
    and rl: "region_lines doc = collect_region_lines (lines_by_path inp)" by simp_all
  have confs: "map (\<lambda>(p, l). confidence l) (region_lines doc block_path) =
      observed_confidences inp block_path"
    by (simp add: rl collect_region_lines_filter observed_confidences_def case_prod_unfold)
  show ?thesis
    by (auto simp: get_def Let_def inp confs list_all_iff not_less)
qed

theorem get_region_or_none_or_error_witness:
  "\<exists>doc. Document ''page'' example_input example_mapping = Inr doc
     \<and> get doc [''regions'', ''TEXT'', ''1''] = Inr (Some (TextRegion example_text_region))
     \<and> get doc [''regions'', ''TEXT'', ''2''] = Inr None
     \<and> get doc [''regions'', ''TEXT'', ''3''] =
          Inl (NoTextFound [''regions'', ''TEXT'', ''3''] [0.8, 0.8])"
proof -
  have d: "Document ''page'' example_input example_mapping = Inr example_document"
    by (simp add: Document_def example_input_def example_mapping_def add_ocr_line_def index_def
     add_def construct_def TextRegion_init_def blocks_and_lines_def lookup_def dict_def
     add_graphic_region_def collect_region_lines_def example_document_def
     example_text_region_def add_text_def Let_def)
  have r: "doc_regions example_document =
      [([''regions'', ''TEXT'', ''1''], TextRegion example_text_region)]"
    by (simp add: example_document_def)
  have c2: "observed_confidences example_input [''regions'', ''TEXT'', ''2''] = [0.1]"
    and c3: "observed_confidences example_input [''regions'', ''TEXT'', ''3''] = [0.8, 0.8]"
    and m: "min_confidence example_input = 0.5"
    by (simp_all add: observed_confidences_def example_input_def example_line_def)
  from get_region_or_none_or_error [OF d, of "[''regions'', ''TEXT'', ''1'']"]
  have g1: "get example_document [''regions'', ''TEXT'', ''1''] =
      Inr (Some (TextRegion example_text_region))"
    by (simp add: r)
  have all2: "\<forall>c \<in> set (observed_confidences example_input [''regions'', ''TEXT'', ''2'']).
      c < min_confidence example_input"
    unfolding c2 m by simp
  have ex3: "\<exists>c \<in> set (observed_confidences example_input [''regions'', ''TEXT'', ''3'']).
      min_confidence example_input \<le> c"
    unfolding c3 m by (rule bexI [of _ "0.8"]) simp_all
  have n2: "map_of (doc_regions example_document) [''regions'', ''TEXT'', ''2''] = None"
    and n3: "map_of (doc_regions example_document) [''regions'', ''TEXT'', ''3''] = None"
    by (simp_all add: r)
  from get_region_or_none_or_error [OF d, of "[''regions'', ''TEXT'', ''2'']"] n2 all2
  have g2: "get example_document [''regions'', ''TEXT'', ''2''] = Inr None"
    by blast
  from get_region_or_none_or_error [OF d, of "[''regions'', ''TEXT'', ''3'']"] n3 ex3
  have g3: "get example_document [''regions'', ''TEXT'', ''3''] =
      Inl (NoTextFound [''regions'', ''TEXT'', ''3''] [0.8, 0.8])"
    unfolding c3 by blast
  from d g1 g2 g3 show ?thesis by blast
qed

subsection \<open>Adjacency of regionless lines\<close>

lemma is_adjacent_result:
  "is_adjacent L doc s p = Inr b \<Longrightarrow>
     b = (regionless_text_lines s \<noteq> [] \<and> take 3 (last (regionless_text_lines s)) = take 3 p)"
  by (auto simp: is_adjacent_def bind_res_eq_Inr split: if_splits)

text \<open>
  C6. The claim asks that a line joins the current run only if it is also within the
  distance threshold of the previous line. On the example page the lines
  \<open>regions/TEXT/3/0\<close> and \<open>regions/TEXT/3/1\<close> are 70 apart, far beyond the threshold
  of 5, and still the second one is found adjacent and joins the run of the first without
  a flush.
\<close>

theorem distant_line_joins_run:
  "distance example_libs
     (image_space_polygon (example_line 20 0.8)) (image_space_polygon (example_line 90 0.8)) = 70
   \<and> lookup (dict (lines_by_path (doc_input example_document))) [''regions'', ''TEXT'', ''3'', ''0'']
       = Inr (example_line 20 0.8)
   \<and> lookup (dict (lines_by_path (doc_input example_document))) [''regions'', ''TEXT'', ''3'', ''1'']
       = Inr (example_line 90 0.8)
   \<and> is_adjacent example_libs example_document far_apart_state [''regions'', ''TEXT'', ''3'', ''1'']
       = Inr True
   \<and> add_regionless_line example_libs example_document far_apart_state
         [''regions'', ''TEXT'', ''3'', ''1'']
       = Inr (far_apart_state\<lparr>regionless_text_lines :=
                [[''regions'', ''TEXT'', ''3'', ''0''], [''regions'', ''TEXT'', ''3'', ''1'']]\<rparr>)"
  by (simp add: add_regionless_line_def is_adjacent_def far_apart_state_def example_document_def
        example_input_def lookup_def dict_def example_libs_def example_line_def)

subsection \<open>Path lengths in the reading order\<close>






subsection \<open>Lines without geometry in a text region\<close>

lemma export_text_line_order [simp]:
  "export_text_line L (r\<lparr>tr_order := xs\<rparr>) = export_text_line L r"
  by (rule ext)+ (simp add: export_text_line_def cong: if_cong)






subsection \<open>Plain text of a table\<close>

lemma TableRegion_init_without_cells:
  "TableRegion_init doc block_path = Inr tb \<Longrightarrow>
     \<exists>lines blocks. tb = table_without_cells lines block_path blocks"
  by (auto simp: TableRegion_init_def table_without_cells_def bind_res_eq_Inr)

lemma grid_wf_without_cells: "grid_wf (table_without_cells lines bp blocks)"
  by (simp add: grid_wf_def table_without_cells_def)

lemma grid_wf_append_cell: "grid_wf tb \<Longrightarrow> grid_wf (append_cell tb grid p t)"
  by (cases grid) (auto simp: grid_wf_def append_cell_def)

lemma grid_wf_cells_appended: "grid_wf tb \<Longrightarrow> grid_wf (cells_appended tb calls)"
proof (induction calls arbitrary: tb)
  case Nil
  then show ?case by (simp add: cells_appended_def)
next
  case (Cons c calls)
  obtain grid p t where c: "c = (grid, p, t)" by (cases c)
  have "cells_appended tb (c # calls) = cells_appended (append_cell tb grid p t) calls"
    by (simp add: cells_appended_def c)
  with Cons.IH [OF grid_wf_append_cell [OF Cons.prems]] show ?case by simp
qed

lemma length_table_data: "length (table_data tb) = row_count tb"
proof -
  have "length (table_data tb) =
      sum_list (map (\<lambda>d. card (tb_rows tb d)) (sorted_list_of_set (tb_divisions tb)))"
    by (simp add: table_data_def length_concat comp_def)
  also have "\<dots> = row_count tb"
  proof (cases "finite (tb_divisions tb)")
    case True
    then show ?thesis
      by (simp add: sum_list_distinct_conv_sum_set row_count_def)
  next
    case False
    then show ?thesis by (simp add: row_count_def)
  qed
  finally show ?thesis .
qed

lemma header_condition:
  assumes wf: "grid_wf tb"
  shows "(length (n_rows tb) \<ge> 2 \<and> n_rows tb ! 0 = 1) \<longleftrightarrow>
         (tb_divisions tb \<noteq> {} \<and> card (tb_rows tb (Min (tb_divisions tb))) = 1 \<and> row_count tb \<ge> 2)"
proof (cases "tb_divisions tb = {}")
  case True
  then show ?thesis by (simp add: n_rows_def)
next
  case False
  define D where "D = tb_divisions tb"
  define a where "a = card (tb_rows tb (Min D))"
  define r where "r = (\<Sum>d \<in> D - {Min D}. card (tb_rows tb d))"
  define k where "k = card (D - {Min D})"
  from wf have fin: "finite D"
    by (simp add: grid_wf_def D_def)
  have rows: "1 \<le> card (tb_rows tb d)" if "d \<in> D" for d
  proof -
    from wf that have "finite (tb_rows tb d)" "tb_rows tb d \<noteq> {}"
      by (simp_all add: grid_wf_def D_def)
    then have "0 < card (tb_rows tb d)" by (simp add: card_gt_0_iff)
    then show ?thesis by simp
  qed
  have ne: "D \<noteq> {}" using False by (simp add: D_def)
  have sl: "sorted_list_of_set D = Min D # sorted_list_of_set (D - {Min D})"
    by (rule sorted_list_of_set_nonempty [OF fin ne])
  have n0: "n_rows tb ! 0 = a"
    unfolding n_rows_def D_def [symmetric] a_def by (subst sl) simp
  have Min_in: "Min D \<in> D" using fin ne by simp
  have len: "length (n_rows tb) = Suc k"
    unfolding n_rows_def D_def [symmetric] k_def
    using card.remove [OF fin Min_in] by simp
  have total: "row_count tb = a + r"
    unfolding row_count_def D_def [symmetric] a_def r_def
    by (rule sum.remove [OF fin Min_in])
  have "(\<Sum>d \<in> D - {Min D}. 1) \<le> (\<Sum>d \<in> D - {Min D}. card (tb_rows tb d))"
    by (rule sum_mono) (use rows in auto)
  then have rk: "k \<le> r" by (simp add: k_def r_def)
  have k0: "r = 0" if "k = 0"
  proof -
    have "finite (D - {Min D})" using fin by simp
    with that have e: "D - {Min D} = {}" unfolding k_def by (simp only: card_0_eq)
    show ?thesis unfolding r_def e by (rule sum.empty)
  qed
  have "(2 \<le> Suc k \<and> a = 1) \<longleftrightarrow> (a = 1 \<and> 2 \<le> a + r)"
    using rk k0 by (cases "k = 0") auto
  then show ?thesis
    using ne by (simp only: n0 len total D_def [symmetric] a_def [symmetric] simp_thms)
qed

lemma single_column_rows:
  assumes "finite (tb_columns tb)" "card (tb_columns tb) = 1"
  shows "map concat (table_data tb) =
         concat (map (\<lambda>d. map (\<lambda>r. cell_text tb d r (the_elem (tb_columns tb)))
                              (sorted_list_of_set (tb_rows tb d)))
                     (sorted_list_of_set (tb_divisions tb)))"
proof -
  from assms(2) obtain c where c: "tb_columns tb = {c}" by (auto simp: card_1_singleton_iff)
  then have "sorted_list_of_set (tb_columns tb) = [c]" "the_elem (tb_columns tb) = c" by simp_all
  then show ?thesis
    by (simp add: table_data_def map_concat comp_def)
qed

lemma example_table_grid:
  "tb_divisions example_table = {0, 1}" "tb_columns example_table = {0, 1}"
  "tb_rows example_table 0 = {0}" "tb_rows example_table 1 = {0}"
  by (simp_all add: example_table_def cells_appended_def append_cell_def table_without_cells_def
        insert_commute)

lemma sorted_pair: "sorted_list_of_set {0, 1 :: int} = [0, 1]"
  by (rule sorted_distinct_set_unique) auto

lemma sorted_single: "sorted_list_of_set {x :: int} = [x]"
  by simp

text \<open>
  C9. For a table built by appending cells to a fresh TableRegion: with exactly one column
  the text is the cell texts joined by newlines, divisions and rows ascending, and tabulate
  is not called; otherwise the text is tabulate's, with the first row as header exactly when
  the first (smallest) division has exactly one row and the table has at least two rows,
  and with no header otherwise.
\<close>

theorem table_to_text:
  assumes "tb = cells_appended (table_without_cells lines bp blocks) calls"
  shows "(card (tb_columns tb) = 1 \<longrightarrow>
            to_text L tb =
              join [CHR 0x0A]
                (concat (map (\<lambda>d. map (\<lambda>r. cell_text tb d r (the_elem (tb_columns tb)))
                                     (sorted_list_of_set (tb_rows tb d)))
                             (sorted_list_of_set (tb_divisions tb)))))
       \<and> (card (tb_columns tb) \<noteq> 1 \<longrightarrow>
            to_text L tb =
              tabulate L (table_data tb)
                (if tb_divisions tb \<noteq> {} \<and> card (tb_rows tb (Min (tb_divisions tb))) = 1
                    \<and> row_count tb \<ge> 2
                 then Firstrow else NoHeaders))
       \<and> length (table_data tb) = row_count tb"
proof -
  have wf: "grid_wf tb"
    unfolding assms by (rule grid_wf_cells_appended [OF grid_wf_without_cells])
  then have fin: "finite (tb_columns tb)" by (simp add: grid_wf_def)
  have one: "card (tb_columns tb) = 1 \<longrightarrow>
            to_text L tb =
              join [CHR 0x0A]
                (concat (map (\<lambda>d. map (\<lambda>r. cell_text tb d r (the_elem (tb_columns tb)))
                                     (sorted_list_of_set (tb_rows tb d)))
                             (sorted_list_of_set (tb_divisions tb))))"
    by (simp add: to_text_def single_column_rows [OF fin])
  have many: "card (tb_columns tb) \<noteq> 1 \<longrightarrow>
            to_text L tb =
              tabulate L (table_data tb)
                (if tb_divisions tb \<noteq> {} \<and> card (tb_rows tb (Min (tb_divisions tb))) = 1
                    \<and> row_count tb \<ge> 2
                 then Firstrow else NoHeaders)"
    using header_condition [OF wf] by (simp add: to_text_def)
  from one many length_table_data [of tb] show ?thesis by (intro conjI)
qed

theorem table_to_text_witness:
  "to_text example_libs example_table = ''H:Name|Age\<newline>Bob|7''
   \<and> to_text example_libs example_list_table = ''a\<newline>b''"
proof -
  have cols: "card (tb_columns example_table) \<noteq> 1"
    by (simp add: example_table_grid)
  have hdr: "tb_divisions example_table \<noteq> {}
      \<and> card (tb_rows example_table (Min (tb_divisions example_table))) = 1
      \<and> row_count example_table \<ge> 2"
    by (simp add: example_table_grid row_count_def)
  have data: "table_data example_table = [[''Name'', ''Age''], [''Bob'', ''7'']]"
    unfolding table_data_def example_table_grid sorted_pair
    by (simp add: example_table_grid cell_text_def example_table_def cells_appended_def
          append_cell_def table_without_cells_def strip_def is_space_def)
  from table_to_text [OF example_table_def, of example_libs] cols hdr
  have "to_text example_libs example_table =
      tabulate example_libs (table_data example_table) Firstrow"
    by simp
  then have one: "to_text example_libs example_table = ''H:Name|Age\<newline>Bob|7''"
    by (simp add: data example_libs_def)
  have g: "tb_divisions example_list_table = {0}" "tb_columns example_list_table = {0}"
    "tb_rows example_list_table 0 = {0, 1}"
    by (simp_all add: example_list_table_def cells_appended_def append_cell_def
          table_without_cells_def insert_commute)
  have c1: "card (tb_columns example_list_table) = 1" by (simp add: g)
  from table_to_text [OF example_list_table_def, of example_libs] c1
  have "to_text example_libs example_list_table =
      join [CHR 0x0A]
        (concat (map (\<lambda>d. map (\<lambda>r. cell_text example_list_table d r
                                      (the_elem (tb_columns example_list_table)))
                             (sorted_list_of_set (tb_rows example_list_table d)))
                     (sorted_list_of_set (tb_divisions example_list_table))))"
    by simp
  then have two: "to_text example_libs example_list_table = ''a\<newline>b''"
    unfolding g sorted_pair sorted_single
    by (simp add: cell_text_def example_list_table_def cells_appended_def
          append_cell_def table_without_cells_def strip_def is_space_def)
  from one two show ?thesis by simp
qed

subsection \<open>Pruning in the export of a table\<close>

lemma for_each_conditional_append:
  assumes "for_each f xs (es0, sh0) = Inr (es, sh)"
    and "\<And>x st st'. x \<in> set xs \<Longrightarrow> f x st = Inr st' \<Longrightarrow>
           (if R x then \<exists>e g. Q x e \<and> st' = (fst st @ [e], snd st @ [g]) else st' = st)"
  shows "\<exists>es1. es = es0 @ es1 \<and> length sh = length sh0 + length es1
           \<and> list_all2 Q (filter R xs) es1"
  using assms
proof (induction xs arbitrary: es0 sh0)
  case Nil
  then show ?case by simp
next
  case (Cons x xs)
  from Cons.prems(1) obtain st1 where f: "f x (es0, sh0) = Inr st1"
    and rest: "for_each f xs st1 = Inr (es, sh)"
    by (auto simp: bind_res_eq_Inr)
  have step: "if R y then \<exists>e g. Q y e \<and> st' = (fst st @ [e], snd st @ [g]) else st' = st"
    if "y \<in> set xs" "f y st = Inr st'" for y st st'
    by (rule Cons.prems(2)) (use that in simp_all)
  from Cons.prems(2) [of x, OF _ f]
  have x: "if R x then \<exists>e g. Q x e \<and> st1 = (es0 @ [e], sh0 @ [g]) else st1 = (es0, sh0)"
    by (auto split: if_splits)
  show ?case
  proof (cases "R x")
    case True
    with x obtain e g where e: "Q x e" and st1: "st1 = (es0 @ [e], sh0 @ [g])" by auto
    from Cons.IH [OF rest [unfolded st1] step]
    obtain es1 where "es = (es0 @ [e]) @ es1" "length sh = length (sh0 @ [g]) + length es1"
      "list_all2 Q (filter R xs) es1" by blast
    with True e show ?thesis
      by (intro exI [of _ "e # es1"]) simp
  next
    case False
    with x have st1: "st1 = (es0, sh0)" by simp
    from Cons.IH [OF rest [unfolded st1] step] False show ?thesis by simp
  qed
qed

lemma for_each_skip:
  "(\<And>x s. x \<in> set xs \<Longrightarrow> f x s = Inr s) \<Longrightarrow> for_each f xs s = Inr s"
  by (induction xs) simp_all

lemma export_cell_step:
  "export_cell L tb did c d r st = Inr st' \<Longrightarrow>
     (if renderable L tb c d r
      then \<exists>e g. cell_element did r e \<and> st' = (fst st @ [e], snd st @ [g])
      else st' = st)"
  by (auto simp: export_cell_def renderable_def cell_element_def bind_res_eq_Inr
           split: option.splits if_splits)

lemma export_cell_skip:
  "\<not> renderable L tb c d r \<Longrightarrow> export_cell L tb did c d r st = Inr st"
  by (auto simp: export_cell_def renderable_def split: option.splits)

lemma filter_renderable_Nil:
  assumes "finite (tb_rows tb d)"
  shows "filter (renderable L tb c d) (sorted_list_of_set (tb_rows tb d)) = []
         \<longleftrightarrow> \<not> division_renderable L tb c d"
  using assms by (auto simp: filter_empty_conv division_renderable_def)

lemma filter_division_renderable_Nil:
  assumes "finite (tb_divisions tb)"
  shows "filter (division_renderable L tb c) (sorted_list_of_set (tb_divisions tb)) = []
         \<longleftrightarrow> \<not> column_renderable L tb c"
  using assms by (auto simp: filter_empty_conv column_renderable_def)

lemma export_division_step:
  assumes wf: "grid_wf tb"
    and run: "export_division L tb cid c d st = Inr st'"
  shows "if division_renderable L tb c d
         then \<exists>e g. division_element L tb cid c d e \<and> st' = (fst st @ [e], snd st @ [g])
         else st' = st"
proof -
  let ?did = "dotted cid d"
  let ?rows = "sorted_list_of_set (tb_rows tb d)"
  from wf have fin: "finite (tb_rows tb d)" by (simp add: grid_wf_def)
  obtain cells shapes where
    inner: "for_each (export_cell L tb ?did c d) ?rows ([], []) = Inr (cells, shapes)"
    using run by (cases "for_each (export_cell L tb ?did c d) ?rows ([], [])")
      (auto simp: export_division_def Let_def)
  have out: "(if shapes \<noteq> [] then
                 Inr (fst st @ [Element ''TextRegion'' ?did
                                  (Some (transform L (polygon_union L shapes))) None cells],
                      snd st @ [polygon_union L shapes])
               else Inr st) = Inr st'"
    using run by (auto simp add: export_division_def Let_def inner split: if_splits)
  have "\<exists>es1. cells = [] @ es1 \<and> length shapes = length ([] :: 'a list) + length es1
      \<and> list_all2 (cell_element ?did) (filter (renderable L tb c d) ?rows) es1"
  proof (rule for_each_conditional_append [OF inner])
    fix x st st'
    assume "export_cell L tb ?did c d x st = Inr st'"
    then show "if renderable L tb c d x
        then \<exists>e g. cell_element ?did x e \<and> st' = (fst st @ [e], snd st @ [g]) else st' = st"
      by (rule export_cell_step)
  qed
  then have len: "length shapes = length cells"
    and corr: "list_all2 (cell_element ?did) (filter (renderable L tb c d) ?rows) cells"
    by auto
  from corr have "length (filter (renderable L tb c d) ?rows) = length cells"
    by (rule list_all2_lengthD)
  with len have "shapes = [] \<longleftrightarrow> filter (renderable L tb c d) ?rows = []"
    by (simp only: length_0_conv [symmetric])
  with filter_renderable_Nil [OF fin, of L c]
  have iff: "shapes \<noteq> [] \<longleftrightarrow> division_renderable L tb c d"
    by simp
  show ?thesis
  proof (cases "division_renderable L tb c d")
    case True
    with iff out have "st' = (fst st @ [Element ''TextRegion'' ?did
                                  (Some (transform L (polygon_union L shapes))) None cells],
                      snd st @ [polygon_union L shapes])"
      by (auto split: if_splits)
    moreover have "division_element L tb cid c d (Element ''TextRegion'' ?did
                                  (Some (transform L (polygon_union L shapes))) None cells)"
      using corr by (simp add: division_element_def)
    ultimately show ?thesis using True by auto
  next
    case False
    with iff out show ?thesis by (auto split: if_splits)
  qed
qed

lemma export_division_skip:
  assumes wf: "grid_wf tb" and no: "\<not> division_renderable L tb c d"
  shows "export_division L tb cid c d st = Inr st"
proof -
  from wf have fin: "finite (tb_rows tb d)" by (simp add: grid_wf_def)
  have "for_each (export_cell L tb (dotted cid d) c d)
          (sorted_list_of_set (tb_rows tb d)) ([], []) = Inr ([], [])"
    by (rule for_each_skip) (use no fin in \<open>auto simp: division_renderable_def export_cell_skip\<close>)
  then show ?thesis by (simp add: export_division_def Let_def)
qed

lemma export_column_step:
  assumes wf: "grid_wf tb"
    and run: "export_column L tb tid c st = Inr st'"
  shows "if column_renderable L tb c
         then \<exists>e g. column_element L tb tid c e \<and> st' = (fst st @ [e], snd st @ [g])
         else st' = st"
proof -
  let ?cid = "dotted tid c"
  let ?divs = "sorted_list_of_set (tb_divisions tb)"
  from wf have fin: "finite (tb_divisions tb)" by (simp add: grid_wf_def)
  obtain elems shapes where
    inner: "for_each (export_division L tb ?cid c) ?divs ([], []) = Inr (elems, shapes)"
    using run by (cases "for_each (export_division L tb ?cid c) ?divs ([], [])")
      (auto simp: export_column_def Let_def)
  have out: "(if shapes \<noteq> [] then
                 Inr (fst st @ [Element ''TextRegion'' ?cid
                                  (Some (transform L (polygon_union L shapes))) None elems],
                      snd st @ [polygon_union L shapes])
               else Inr st) = Inr st'"
    using run by (auto simp add: export_column_def Let_def inner split: if_splits)
  have "\<exists>es1. elems = [] @ es1 \<and> length shapes = length ([] :: 'a list) + length es1
      \<and> list_all2 (division_element L tb ?cid c) (filter (division_renderable L tb c) ?divs) es1"
  proof (rule for_each_conditional_append [OF inner])
    fix x st st'
    assume "export_division L tb ?cid c x st = Inr st'"
    then show "if division_renderable L tb c x
        then \<exists>e g. division_element L tb ?cid c x e \<and> st' = (fst st @ [e], snd st @ [g])
        else st' = st"
      by (rule export_division_step [OF wf])
  qed
  then have len: "length shapes = length elems"
    and corr: "list_all2 (division_element L tb ?cid c)
                 (filter (division_renderable L tb c) ?divs) elems"
    by auto
  from corr have "length (filter (division_renderable L tb c) ?divs) = length elems"
    by (rule list_all2_lengthD)
  with len have "shapes = [] \<longleftrightarrow> filter (division_renderable L tb c) ?divs = []"
    by (simp only: length_0_conv [symmetric])
  with filter_division_renderable_Nil [OF fin, of L c]
  have iff: "shapes \<noteq> [] \<longleftrightarrow> column_renderable L tb c"
    by simp
  show ?thesis
  proof (cases "column_renderable L tb c")
    case True
    with iff out have "st' = (fst st @ [Element ''TextRegion'' ?cid
                                  (Some (transform L (polygon_union L shapes))) None elems],
                      snd st @ [polygon_union L shapes])"
      by (auto split: if_splits)
    moreover have "column_element L tb tid c (Element ''TextRegion'' ?cid
                                  (Some (transform L (polygon_union L shapes))) None elems)"
      using corr by (simp add: column_element_def)
    ultimately show ?thesis using True by auto
  next
    case False
    with iff out show ?thesis by (auto split: if_splits)
  qed
qed

lemma export_column_skip:
  assumes wf: "grid_wf tb" and no: "\<not> column_renderable L tb c"
  shows "export_column L tb tid c st = Inr st"
proof -
  from wf have fin: "finite (tb_divisions tb)" by (simp add: grid_wf_def)
  have "for_each (export_division L tb (dotted tid c) c)
          (sorted_list_of_set (tb_divisions tb)) ([], []) = Inr ([], [])"
    by (rule for_each_skip)
       (use no fin in \<open>auto simp: column_renderable_def export_division_skip [OF wf]\<close>)
  then show ?thesis by (simp add: export_column_def Let_def)
qed


lemma list_all2_set2:
  "list_all2 P xs ys \<Longrightarrow> y \<in> set ys \<Longrightarrow> \<exists>x \<in> set xs. P x y"
  by (induction rule: list_all2_induct) auto

lemma division_element_nonempty:
  assumes wf: "grid_wf tb" and el: "division_element L tb cid c d e"
    and r: "division_renderable L tb c d"
  shows "px_children e \<noteq> []"
proof -
  from wf have fin: "finite (tb_rows tb d)" by (simp add: grid_wf_def)
  from el have "length (filter (renderable L tb c d) (sorted_list_of_set (tb_rows tb d)))
      = length (px_children e)"
    by (auto simp: division_element_def dest: list_all2_lengthD)
  moreover from r filter_renderable_Nil [OF fin, of L c]
  have "filter (renderable L tb c d) (sorted_list_of_set (tb_rows tb d)) \<noteq> []" by simp
  ultimately show ?thesis by auto
qed

lemma column_element_nonempty:
  assumes wf: "grid_wf tb" and el: "column_element L tb tid c e"
    and r: "column_renderable L tb c"
  shows "px_children e \<noteq> [] \<and> (\<forall>dv \<in> set (px_children e). px_children dv \<noteq> [])"
proof -
  from wf have fin: "finite (tb_divisions tb)" by (simp add: grid_wf_def)
  let ?ds = "filter (division_renderable L tb c) (sorted_list_of_set (tb_divisions tb))"
  from el have corr: "list_all2 (division_element L tb (dotted tid c) c) ?ds (px_children e)"
    by (simp add: column_element_def)
  then have "length ?ds = length (px_children e)" by (rule list_all2_lengthD)
  moreover from r filter_division_renderable_Nil [OF fin, of L c] have "?ds \<noteq> []" by simp
  ultimately have one: "px_children e \<noteq> []" by auto
  have two: "px_children dv \<noteq> []" if "dv \<in> set (px_children e)" for dv
  proof -
    from list_all2_set2 [OF corr that] obtain d where "d \<in> set ?ds"
      and "division_element L tb (dotted tid c) c d dv" by blast
    then show ?thesis using division_element_nonempty [OF wf] by auto
  qed
  from one two show ?thesis by blast
qed

lemma filter_column_renderable_Nil:
  assumes "finite (tb_columns tb)"
  shows "filter (column_renderable L tb) (sorted_list_of_set (tb_columns tb)) = []
         \<longleftrightarrow> \<not> (\<exists>c \<in> tb_columns tb. column_renderable L tb c)"
  using assms by (auto simp: filter_empty_conv)

lemma str_int_digit: "str_int 0 = ''0''" "str_int 1 = ''1''"
  by code_simp+

lemma polygon_union_example: "polygon_union example_libs gs = concat gs"
  by (simp add: polygon_union_def example_libs_def)

lemma example_grid_table_grid:
  "tb_divisions example_grid_table = {0, 1}" "tb_columns example_grid_table = {0, 1}"
  "tb_rows example_grid_table 0 = {0}" "tb_rows example_grid_table 1 = {0}"
  by (simp_all add: example_grid_table_def cells_appended_def append_cell_def
        table_without_cells_def insert_commute)

lemma example_grid_table_run:
  "TableRegion_export_page_xml example_libs ''page'' example_grid_table empty_px =
     Inr (empty_px\<lparr>px_regions := px_regions empty_px @
       [Element ''TableRegion'' ''regions-TABULAR-4'' (Some [(0, 0), (50, 0), (50, 50), (0, 0)]) None
         [Element ''TextRegion'' ''regions-TABULAR-4.0'' (Some [(0, 0), (50, 0), (50, 50), (0, 0)]) None
           [Element ''TextRegion'' ''regions-TABULAR-4.0.0''
              (Some [(0, 0), (50, 0), (50, 50), (0, 0)]) None
             [Element ''TextRegion'' ''regions-TABULAR-4.0.0.0''
                (Some [(0, 0), (50, 0), (50, 50), (0, 0)]) None
               [Element ''TextLine'' ''regions-TABULAR-4.0.0.0-0''
                  (Some [(0, 10), (5, 10), (5, 20), (0, 10)]) (Some ''Name'') []]]]]]\<rparr>)"
  unfolding TableRegion_export_page_xml_def export_column_def export_division_def Let_def
    example_grid_table_grid sorted_pair sorted_single
  by (simp add: export_cell_def export_cell_line_def example_grid_table_def cells_appended_def
        append_cell_def table_without_cells_def dict_def lookup_def dotted_def str_int_digit
        transform_example is_empty_example polygon_union_example example_block_def
        example_line_def empty_px_def)

text \<open>
  C3. For a table built by appending cells to a fresh TableRegion, whenever the export
  returns: if some column can be rendered, exactly one TableRegion element is added, its
  columns are the renderable columns, their divisions the renderable divisions, their
  cells the renderable cells (block present, polygon not empty), so the table has a
  column, every column a division and every division a cell; if no column can be rendered,
  no element is added and the warning is logged. In that second case the export always
  returns.
\<close>

theorem table_pruning:
  assumes built: "tb = cells_appended (table_without_cells lines bp blocks) calls"
  shows "(\<forall>px'. TableRegion_export_page_xml L pp tb px = Inr px' \<longrightarrow>
            (if \<exists>c \<in> tb_columns tb. column_renderable L tb c
             then \<exists>e. px' = px\<lparr>px_regions := px_regions px @ [e]\<rparr> \<and> table_element L tb e
                    \<and> px_children e \<noteq> []
                    \<and> (\<forall>col \<in> set (px_children e). px_children col \<noteq> []
                          \<and> (\<forall>dv \<in> set (px_children col). px_children dv \<noteq> []))
             else px' = px\<lparr>warnings := warnings px @ [TableWasEmpty (tb_block_path tb) pp]\<rparr>))
       \<and> (\<not> (\<exists>c \<in> tb_columns tb. column_renderable L tb c) \<longrightarrow>
            TableRegion_export_page_xml L pp tb px =
              Inr (px\<lparr>warnings := warnings px @ [TableWasEmpty (tb_block_path tb) pp]\<rparr>))"
proof (intro conjI allI impI)
  have wf: "grid_wf tb"
    unfolding built by (rule grid_wf_cells_appended [OF grid_wf_without_cells])
  then have fin: "finite (tb_columns tb)" by (simp add: grid_wf_def)
  let ?tid = "join ''-'' (tb_block_path tb)"
  let ?cols = "sorted_list_of_set (tb_columns tb)"
  let ?any = "\<exists>c \<in> tb_columns tb. column_renderable L tb c"
  {
    fix px'
    assume run: "TableRegion_export_page_xml L pp tb px = Inr px'"
    obtain elems shapes where
      inner: "for_each (export_column L tb ?tid) ?cols ([], []) = Inr (elems, shapes)"
      using run by (cases "for_each (export_column L tb ?tid) ?cols ([], [])")
        (auto simp: TableRegion_export_page_xml_def Let_def)
    have out: "(if shapes \<noteq> [] then
                 Inr (px\<lparr>px_regions := px_regions px @
                        [Element ''TableRegion'' ?tid
                           (Some (transform L (polygon_union L shapes))) None elems]\<rparr>)
               else Inr (px\<lparr>warnings := warnings px @
                        [TableWasEmpty (tb_block_path tb) pp]\<rparr>)) = Inr px'"
      using run by (auto simp add: TableRegion_export_page_xml_def Let_def inner split: if_splits)
    have "\<exists>es1. elems = [] @ es1 \<and> length shapes = length ([] :: 'a list) + length es1
        \<and> list_all2 (column_element L tb ?tid) (filter (column_renderable L tb) ?cols) es1"
    proof (rule for_each_conditional_append [OF inner])
      fix x st st'
      assume "export_column L tb ?tid x st = Inr st'"
      then show "if column_renderable L tb x
          then \<exists>e g. column_element L tb ?tid x e \<and> st' = (fst st @ [e], snd st @ [g])
          else st' = st"
        by (rule export_column_step [OF wf])
    qed
    then have len: "length shapes = length elems"
      and corr: "list_all2 (column_element L tb ?tid) (filter (column_renderable L tb) ?cols) elems"
      by auto
    from corr have "length (filter (column_renderable L tb) ?cols) = length elems"
      by (rule list_all2_lengthD)
    with len have "shapes = [] \<longleftrightarrow> filter (column_renderable L tb) ?cols = []"
      by (simp only: length_0_conv [symmetric])
    with filter_column_renderable_Nil [OF fin, of L]
    have iff: "shapes \<noteq> [] \<longleftrightarrow> ?any" by simp
    show "if ?any
          then \<exists>e. px' = px\<lparr>px_regions := px_regions px @ [e]\<rparr> \<and> table_element L tb e
                 \<and> px_children e \<noteq> []
                 \<and> (\<forall>col \<in> set (px_children e). px_children col \<noteq> []
                       \<and> (\<forall>dv \<in> set (px_children col). px_children dv \<noteq> []))
          else px' = px\<lparr>warnings := warnings px @ [TableWasEmpty (tb_block_path tb) pp]\<rparr>"
    proof (cases ?any)
      case True
      let ?e = "Element ''TableRegion'' ?tid (Some (transform L (polygon_union L shapes))) None elems"
      from True iff out have px': "px' = px\<lparr>px_regions := px_regions px @ [?e]\<rparr>"
        by (auto split: if_splits)
      have te: "table_element L tb ?e" using corr by (simp add: table_element_def)
      from True iff len have ne: "px_children ?e \<noteq> []" by auto
      have sub: "px_children col \<noteq> [] \<and> (\<forall>dv \<in> set (px_children col). px_children dv \<noteq> [])"
        if "col \<in> set (px_children ?e)" for col
      proof -
        from that have "col \<in> set elems" by simp
        from list_all2_set2 [OF corr this] obtain c
          where "c \<in> set (filter (column_renderable L tb) ?cols)"
            and "column_element L tb ?tid c col" by blast
        then show ?thesis using column_element_nonempty [OF wf] by auto
      qed
      have "\<exists>e. px' = px\<lparr>px_regions := px_regions px @ [e]\<rparr> \<and> table_element L tb e
                 \<and> px_children e \<noteq> []
                 \<and> (\<forall>col \<in> set (px_children e). px_children col \<noteq> []
                       \<and> (\<forall>dv \<in> set (px_children col). px_children dv \<noteq> []))"
        using px' te ne sub by (intro exI [of _ ?e]) blast
      with True show ?thesis by (simp only: if_True)
    next
      case False
      with iff out show ?thesis by (auto split: if_splits)
    qed
  next
    assume no: "\<not> ?any"
    have "for_each (export_column L tb ?tid) ?cols ([], []) = Inr ([], [])"
      by (rule for_each_skip) (use no fin in \<open>auto simp: export_column_skip [OF wf]\<close>)
    then show "TableRegion_export_page_xml L pp tb px =
              Inr (px\<lparr>warnings := warnings px @ [TableWasEmpty (tb_block_path tb) pp]\<rparr>)"
      by (simp add: TableRegion_export_page_xml_def Let_def)
  }
qed

theorem table_pruning_witness:
  "(\<exists>e. TableRegion_export_page_xml example_libs ''page'' example_grid_table empty_px =
          Inr (empty_px\<lparr>px_regions := px_regions empty_px @ [e]\<rparr>)
        \<and> map px_id (px_children e) = [''regions-TABULAR-4.0'']
        \<and> px_children e \<noteq> []
        \<and> (\<forall>col \<in> set (px_children e). px_children col \<noteq> []
              \<and> (\<forall>dv \<in> set (px_children col). px_children dv \<noteq> [])))
   \<and> TableRegion_export_page_xml example_libs ''page'' example_table empty_px =
       Inr (empty_px\<lparr>warnings := warnings empty_px @
              [TableWasEmpty [''regions'', ''TABULAR'', ''4''] ''page'']\<rparr>)"
proof -
  have r000: "renderable example_libs example_grid_table 0 0 0"
    by (simp add: renderable_def example_grid_table_def cells_appended_def append_cell_def
          table_without_cells_def is_empty_example example_block_def)
  have any: "\<exists>c \<in> tb_columns example_grid_table. column_renderable example_libs example_grid_table c"
    unfolding column_renderable_def division_renderable_def example_grid_table_grid
    using r000 by (intro bexI [of _ 0]) (simp_all add: example_grid_table_grid)
  from table_pruning [OF example_grid_table_def, of example_libs "''page''" empty_px]
    example_grid_table_run any
  obtain e where e: "empty_px\<lparr>px_regions := px_regions empty_px @
       [Element ''TableRegion'' ''regions-TABULAR-4'' (Some [(0, 0), (50, 0), (50, 50), (0, 0)]) None
         [Element ''TextRegion'' ''regions-TABULAR-4.0'' (Some [(0, 0), (50, 0), (50, 50), (0, 0)]) None
           [Element ''TextRegion'' ''regions-TABULAR-4.0.0''
              (Some [(0, 0), (50, 0), (50, 50), (0, 0)]) None
             [Element ''TextRegion'' ''regions-TABULAR-4.0.0.0''
                (Some [(0, 0), (50, 0), (50, 50), (0, 0)]) None
               [Element ''TextLine'' ''regions-TABULAR-4.0.0.0-0''
                  (Some [(0, 10), (5, 10), (5, 20), (0, 10)]) (Some ''Name'') []]]]]]\<rparr>
      = empty_px\<lparr>px_regions := px_regions empty_px @ [e]\<rparr>"
    and ne: "px_children e \<noteq> []"
    and sub: "\<forall>col \<in> set (px_children e). px_children col \<noteq> []
              \<and> (\<forall>dv \<in> set (px_children col). px_children dv \<noteq> [])"
    by (auto simp only: if_True)
  from e have ids: "map px_id (px_children e) = [''regions-TABULAR-4.0'']"
    by (auto simp: empty_px_def)
  have one: "\<exists>e. TableRegion_export_page_xml example_libs ''page'' example_grid_table empty_px =
          Inr (empty_px\<lparr>px_regions := px_regions empty_px @ [e]\<rparr>)
        \<and> map px_id (px_children e) = [''regions-TABULAR-4.0'']
        \<and> px_children e \<noteq> []
        \<and> (\<forall>col \<in> set (px_children e). px_children col \<noteq> []
              \<and> (\<forall>dv \<in> set (px_children col). px_children dv \<noteq> []))"
    using example_grid_table_run e ids ne sub by (intro exI [of _ e]) simp
  have none: "\<not> (\<exists>c \<in> tb_columns example_table. column_renderable example_libs example_table c)"
    by (simp add: column_renderable_def division_renderable_def renderable_def example_table_def
          cells_appended_def append_cell_def table_without_cells_def)
  have bp: "tb_block_path example_table = [''regions'', ''TABULAR'', ''4'']"
    by (simp add: example_table_def cells_appended_def append_cell_def table_without_cells_def)
  from table_pruning [OF example_table_def, of example_libs "''page''" empty_px] none
  have two: "TableRegion_export_page_xml example_libs ''page'' example_table empty_px =
       Inr (empty_px\<lparr>warnings := warnings empty_px @
              [TableWasEmpty [''regions'', ''TABULAR'', ''4''] ''page'']\<rparr>)"
    unfolding bp by blast
  from one two show ?thesis by (rule conjI)
qed

subsection \<open>Namespace and class of the OCR lines\<close>

lemma split_not_Nil: "split d s \<noteq> []"
  by (induction s) (auto split: list.splits)

lemma length_split: "Suc 0 < length (split d s) \<longleftrightarrow> d \<in> set s"
proof (induction s)
  case Nil
  show ?case by simp
next
  case (Cons c cs)
  show ?case
  proof (cases "c = d")
    case True
    then show ?thesis using split_not_Nil [of d cs] by (cases "split d cs") auto
  next
    case False
    then show ?thesis using Cons.IH split_not_Nil [of d cs] by (cases "split d cs") auto
  qed
qed

lemma index_take3: "index (take 3 lp) 2 = (if length lp \<ge> 3 then Inr (lp ! 2) else Inl IndexError)"
  by (auto simp: index_def)

lemma add_ocr_line_wrong_class:
  assumes "length lp \<ge> 3" "take 2 lp \<noteq> expected_class lp"
  shows "add_ocr_line (lp, t) doc = Inl AssertionError"
  using assms
  by (simp add: add_ocr_line_def Let_def index_take3 length_split expected_class_def
           split: if_splits)

lemma add_ocr_line_right_class:
  assumes "add_ocr_line (lp, t) doc = Inr doc'"
  shows "length lp \<ge> 3 \<and> take 2 lp = expected_class lp"
proof -
  from assms have len: "length lp \<ge> 3"
    by (auto simp: add_ocr_line_def Let_def index_take3 bind_res_eq_Inr split: if_splits)
  show ?thesis
  proof (rule ccontr)
    assume "\<not> (length lp \<ge> 3 \<and> take 2 lp = expected_class lp)"
    with len have "take 2 lp \<noteq> expected_class lp" by simp
    from add_ocr_line_wrong_class [OF len this, of t doc] assms show False by simp
  qed
qed

lemma for_each_all_succeed:
  "for_each f xs s = Inr s' \<Longrightarrow> x \<in> set xs \<Longrightarrow> \<exists>a b. f x a = Inr b"
proof (induction xs arbitrary: s)
  case Nil
  then show ?case by simp
next
  case (Cons y ys)
  from Cons.prems(1) obtain a where a: "f y s = Inr a" and r: "for_each f ys a = Inr s'"
    by (auto simp: bind_res_eq_Inr)
  show ?case
  proof (cases "x = y")
    case True
    with a show ?thesis by blast
  next
    case False
    with Cons.prems(2) have "x \<in> set ys" by simp
    from Cons.IH [OF r this] show ?thesis .
  qed
qed

lemma Document_unfold:
  "Document pp inp mapping =
     bind_res (for_each add_ocr_line (sorted_ocr inp) (document_without_regions pp inp mapping))
       (for_each add_graphic_region (regions_by_path inp))"
  by (simp add: Document_def document_without_regions_def Let_def)

text \<open>
  C10. An OCR line (of at least three segments) whose namespace and class are not the
  expected ones makes the loop body raise AssertionError, whatever the Document holds; so
  when the body returns, and when the whole construction returns, every OCR line has the
  expected namespace and class. The first line that has not, reached without an earlier
  error, makes the construction fail with AssertionError.
\<close>

theorem ocr_line_class:
  "(length lp \<ge> 3 \<and> take 2 lp \<noteq> expected_class lp \<longrightarrow>
      add_ocr_line (lp, t) doc = Inl AssertionError)
   \<and> (\<forall>doc'. add_ocr_line (lp, t) doc = Inr doc' \<longrightarrow>
         length lp \<ge> 3 \<and> take 2 lp = expected_class lp)
   \<and> (\<forall>d. Document pp inp mapping = Inr d \<longrightarrow>
         (\<forall>(p, u) \<in> set (sorted_ocr inp). length p \<ge> 3 \<and> take 2 p = expected_class p))
   \<and> (sorted_ocr inp = pre @ (lp, t) # post
        \<and> for_each add_ocr_line pre (document_without_regions pp inp mapping) = Inr d1
        \<and> length lp \<ge> 3 \<and> take 2 lp \<noteq> expected_class lp \<longrightarrow>
      Document pp inp mapping = Inl AssertionError)"
proof (intro conjI allI impI)
  assume "length lp \<ge> 3 \<and> take 2 lp \<noteq> expected_class lp"
  then show "add_ocr_line (lp, t) doc = Inl AssertionError"
    by (simp add: add_ocr_line_wrong_class)
next
  fix doc' assume "add_ocr_line (lp, t) doc = Inr doc'"
  from add_ocr_line_right_class [OF this]
  show "length lp \<ge> 3" "take 2 lp = expected_class lp" by simp_all
next
  fix d assume d: "Document pp inp mapping = Inr d"
  then obtain d1 where run: "for_each add_ocr_line (sorted_ocr inp)
      (document_without_regions pp inp mapping) = Inr d1"
    by (auto simp: Document_unfold bind_res_eq_Inr)
  show "\<forall>(p, u) \<in> set (sorted_ocr inp). length p \<ge> 3 \<and> take 2 p = expected_class p"
  proof (clarify)
    fix p u assume "(p, u) \<in> set (sorted_ocr inp)"
    from for_each_all_succeed [OF run this]
    show "length p \<ge> 3 \<and> take 2 p = expected_class p"
      using add_ocr_line_right_class by blast
  qed
next
  assume a: "sorted_ocr inp = pre @ (lp, t) # post
        \<and> for_each add_ocr_line pre (document_without_regions pp inp mapping) = Inr d1
        \<and> length lp \<ge> 3 \<and> take 2 lp \<noteq> expected_class lp"
  then have "add_ocr_line (lp, t) d1 = Inl AssertionError"
    by (simp add: add_ocr_line_wrong_class)
  with a show "Document pp inp mapping = Inl AssertionError"
    by (simp add: Document_unfold for_each_append)
qed

theorem ocr_line_class_witness:
  "Document ''page'' misfiled_input example_mapping = Inl AssertionError
   \<and> list_all (\<lambda>(p, u). length p \<ge> 3 \<and> take 2 p = [''regions'', ''TEXT''])
         (sorted_ocr example_input)
   \<and> add_ocr_line ([''regions'', ''TEXT'', ''4.0.0.1'', ''0''], ''cell'') example_document
       = Inl AssertionError"
proof -
  let ?pre = "[([''regions'', ''TEXT'', ''1'', ''0''], ''Hello'')]"
  let ?lp = "[''regions'', ''ILLUSTRATION'', ''7'', ''0'']"
  have o: "sorted_ocr misfiled_input = ?pre @ (?lp, ''caption'') # []"
    by (simp add: misfiled_input_def)
  have pre: "for_each add_ocr_line ?pre (document_without_regions ''page'' misfiled_input example_mapping)
      = Inr (example_document\<lparr>doc_input := misfiled_input\<rparr>)"
    by (simp add: document_without_regions_def misfiled_input_def example_input_def
          example_mapping_def add_ocr_line_def index_def
          add_def construct_def TextRegion_init_def blocks_and_lines_def lookup_def dict_def
          collect_region_lines_def example_document_def
          example_text_region_def add_text_def Let_def)
  have v: "length ?lp \<ge> 3 \<and> take 2 ?lp \<noteq> expected_class ?lp"
    by (simp add: expected_class_def)
  from ocr_line_class [where inp = misfiled_input and pre = ?pre and lp = ?lp and t = "''caption''"
      and post = "[]" and pp = "''page''" and mapping = example_mapping
      and ?d1.0 = "example_document\<lparr>doc_input := misfiled_input\<rparr>"] o pre v
  have one: "Document ''page'' misfiled_input example_mapping = Inl AssertionError"
    by blast
  have d: "Document ''page'' example_input example_mapping = Inr example_document"
    by (simp add: Document_def example_input_def example_mapping_def add_ocr_line_def index_def
     add_def construct_def TextRegion_init_def blocks_and_lines_def lookup_def dict_def
     add_graphic_region_def collect_region_lines_def example_document_def
     example_text_region_def add_text_def Let_def)
  from ocr_line_class [where inp = example_input and pp = "''page''" and mapping = example_mapping] d
  have "\<forall>(p, u) \<in> set (sorted_ocr example_input). length p \<ge> 3 \<and> take 2 p = expected_class p"
    by blast
  then have two: "list_all (\<lambda>(p, u). length p \<ge> 3 \<and> take 2 p = [''regions'', ''TEXT''])
         (sorted_ocr example_input)"
    by (simp add: example_input_def expected_class_def)
  let ?q = "[''regions'', ''TEXT'', ''4.0.0.1'', ''0'']"
  have "length ?q \<ge> 3 \<and> take 2 ?q \<noteq> expected_class ?q"
    by (simp add: expected_class_def)
  with ocr_line_class [where lp = ?q and t = "''cell''" and doc = example_document]
  have three: "add_ocr_line (?q, ''cell'') example_document = Inl AssertionError"
    by blast
  from one two three show ?thesis by (intro conjI)
qed

subsection \<open>Printing and reading an integer\<close>

lemma digit_char: "k < 10 \<Longrightarrow> is_digit (char_of (48 + k)) \<and> digit_val (char_of (48 + k)) = k"
  by (simp add: is_digit_def digit_val_def)

lemma str_nat_digits: "str_nat n \<noteq> [] \<and> (\<forall>c \<in> set (str_nat n). is_digit c)"
proof (induction n rule: str_nat.induct)
  case (1 n)
  show ?case
  proof (cases "n < 10")
    case True
    then show ?thesis by (subst str_nat.simps, subst (2) str_nat.simps) (simp add: digit_char)
  next
    case False
    have "n mod 10 < 10" by simp
    with False 1 show ?thesis
      by (subst str_nat.simps, subst (2) str_nat.simps) (auto simp: digit_char)
  qed
qed

lemma parse_digits_all:
  "\<forall>c \<in> set ds. is_digit c \<Longrightarrow>
     parse_digits acc ds = Some (foldl (\<lambda>a c. 10 * a + digit_val c) acc ds)"
  by (induction acc ds rule: parse_digits.induct) auto

lemma parse_nat_all:
  "ds \<noteq> [] \<Longrightarrow> \<forall>c \<in> set ds. is_digit c \<Longrightarrow>
     parse_nat ds = Some (foldl (\<lambda>a c. 10 * a + digit_val c) 0 ds)"
  by (cases ds) (simp_all add: parse_nat_def parse_digits_all)

lemma value_str_nat: "foldl (\<lambda>a c. 10 * a + digit_val c) 0 (str_nat n) = n"
proof (induction n rule: str_nat.induct)
  case (1 n)
  show ?case
  proof (cases "n < 10")
    case True
    then show ?thesis by (subst str_nat.simps) (simp add: digit_char)
  next
    case False
    have "n mod 10 < 10" by simp
    with False 1 show ?thesis
      by (subst str_nat.simps) (simp add: digit_char)
  qed
qed

lemma parse_nat_str_nat: "parse_nat (str_nat n) = Some n"
  using str_nat_digits [of n] by (simp add: parse_nat_all value_str_nat)

lemma digit_not_special:
  "is_digit c \<Longrightarrow> \<not> is_space c \<and> c \<noteq> CHR ''-'' \<and> c \<noteq> CHR ''+''"
  by (auto simp: is_digit_def is_space_def Let_def)

lemma strip_id:
  assumes "s \<noteq> []" "\<not> is_space (hd s)" "\<not> is_space (last s)"
  shows "strip s = s"
proof -
  from assms have a: "dropWhile is_space s = s" by (cases s) auto
  from assms have "dropWhile is_space (rev s) = rev s"
    by (cases "rev s") (auto simp: hd_rev)
  with a show ?thesis by (simp add: strip_def)
qed

lemma strip_str_nat: "strip (str_nat n) = str_nat n"
proof (rule strip_id)
  show ne: "str_nat n \<noteq> []" using str_nat_digits by blast
  from ne str_nat_digits [of n] have "is_digit (hd (str_nat n))" "is_digit (last (str_nat n))"
    by auto
  then show "\<not> is_space (hd (str_nat n))" "\<not> is_space (last (str_nat n))"
    by (simp_all add: digit_not_special)
qed

lemma strip_minus_str_nat: "strip (CHR ''-'' # str_nat n) = CHR ''-'' # str_nat n"
proof (rule strip_id)
  show "CHR ''-'' # str_nat n \<noteq> []" by simp
  show "\<not> is_space (hd (CHR ''-'' # str_nat n))" by (simp add: is_space_def)
  from str_nat_digits [of n] have "is_digit (last (str_nat n))" by auto
  then show "\<not> is_space (last (CHR ''-'' # str_nat n))"
    using str_nat_digits [of n] by (simp add: digit_not_special)
qed

lemma py_int_str_int: "py_int (str_int i) = Inr i"
proof (cases "i < 0")
  case True
  then show ?thesis
    by (simp add: py_int_def str_int_def strip_minus_str_nat parse_nat_str_nat)
next
  case False
  from str_nat_digits [of "nat i"] obtain c cs where s: "str_nat (nat i) = c # cs" and d: "is_digit c"
    by (cases "str_nat (nat i)") auto
  from d have "c \<noteq> CHR ''-''" "c \<noteq> CHR ''+''" by (simp_all add: digit_not_special)
  moreover have "strip (c # cs) = c # cs" using strip_str_nat [of "nat i"] s by simp
  ultimately show ?thesis
    using False s parse_nat_str_nat [of "nat i"]
    by (simp add: py_int_def str_int_def Let_def)
qed

lemma str_int_inject: "str_int i = str_int j \<longleftrightarrow> i = j"
proof
  assume "str_int i = str_int j"
  then have "py_int (str_int i) = py_int (str_int j)" by simp
  then show "i = j" by (simp add: py_int_str_int)
qed simp

subsection \<open>Indices of the merged regions\<close>

lemma observe_index_Inr:
  "observe_index p ri = Inr r \<Longrightarrow>
     \<exists>seg i. index p 2 = Inr seg \<and> py_int seg = Inr i \<and> r = ri(take 2 p := max (ri (take 2 p)) i)"
  by (auto simp: observe_index_def bind_res_eq_Inr)

lemma observe_index_loop:
  assumes "for_each observe_index xs ri = Inr ri'"
  shows "(\<forall>b. ri b \<le> ri' b)
       \<and> (\<forall>p \<in> set xs. \<forall>seg i. index p 2 = Inr seg \<and> py_int seg = Inr i \<longrightarrow> i \<le> ri' (take 2 p))
       \<and> (\<forall>b. ri' b = ri b \<or>
              (\<exists>p \<in> set xs. take 2 p = b \<and> (\<exists>seg. index p 2 = Inr seg \<and> py_int seg = Inr (ri' b))))"
  using assms
proof (induction xs arbitrary: ri)
  case Nil
  then show ?case by simp
next
  case (Cons x xs)
  from Cons.prems obtain r1 where r1: "observe_index x ri = Inr r1"
    and rest1: "for_each observe_index xs r1 = Inr ri'"
    by (auto simp: bind_res_eq_Inr)
  from observe_index_Inr [OF r1] obtain seg i where seg: "index x 2 = Inr seg"
    and i: "py_int seg = Inr i" and r1_eq: "r1 = ri(take 2 x := max (ri (take 2 x)) i)"
    by blast
  from rest1 r1_eq
  have rest: "for_each observe_index xs (ri(take 2 x := max (ri (take 2 x)) i)) = Inr ri'"
    by simp
  let ?ri1 = "ri(take 2 x := max (ri (take 2 x)) i)"
  note IH = Cons.IH [OF rest]
  have mono1: "\<And>b. ri b \<le> ?ri1 b" by simp
  have a: "\<forall>b. ri b \<le> ri' b"
  proof
    fix b from IH have "?ri1 b \<le> ri' b" by blast
    with mono1 [of b] show "ri b \<le> ri' b" by linarith
  qed
  have b: "\<forall>p \<in> set (x # xs). \<forall>seg i. index p 2 = Inr seg \<and> py_int seg = Inr i
      \<longrightarrow> i \<le> ri' (take 2 p)"
  proof (intro ballI allI impI)
    fix p seg' j assume p: "p \<in> set (x # xs)" and pj: "index p 2 = Inr seg' \<and> py_int seg' = Inr j"
    show "j \<le> ri' (take 2 p)"
    proof (cases "p \<in> set xs")
      case True
      with IH pj show ?thesis by blast
    next
      case False
      with p have px: "p = x" by simp
      with pj seg i have "j = i" by simp
      then have "j \<le> ?ri1 (take 2 x)" by simp
      also from IH have "?ri1 (take 2 x) \<le> ri' (take 2 x)" by blast
      finally show ?thesis by (simp add: px)
    qed
  qed
  have c: "\<forall>b. ri' b = ri b \<or>
      (\<exists>p \<in> set (x # xs). take 2 p = b \<and> (\<exists>seg. index p 2 = Inr seg \<and> py_int seg = Inr (ri' b)))"
  proof
    fix b
    from IH have "ri' b = ?ri1 b \<or>
        (\<exists>p \<in> set xs. take 2 p = b \<and> (\<exists>seg. index p 2 = Inr seg \<and> py_int seg = Inr (ri' b)))"
      by blast
    then show "ri' b = ri b \<or>
      (\<exists>p \<in> set (x # xs). take 2 p = b \<and> (\<exists>seg. index p 2 = Inr seg \<and> py_int seg = Inr (ri' b)))"
    proof
      assume e: "ri' b = ?ri1 b"
      show ?thesis
      proof (cases "b = take 2 x \<and> ri (take 2 x) < i")
        case True
        with e have "ri' b = i" by (simp add: max_def)
        with True seg i show ?thesis by auto
      next
        case False
        with e have "ri' b = ri b" by (auto simp: max_def)
        then show ?thesis by simp
      qed
    next
      assume "\<exists>p \<in> set xs. take 2 p = b \<and> (\<exists>seg. index p 2 = Inr seg \<and> py_int seg = Inr (ri' b))"
      then show ?thesis by auto
    qed
  qed
  from a b c show ?case by blast
qed

lemma start_inv:
  assumes "RegionReadingOrder_start doc = Inr s"
  shows "rro_inv doc s"
proof -
  from assms obtain ri where run: "for_each observe_index (paths doc) (\<lambda>k. 0) = Inr ri"
    and s: "s = \<lparr>ordered_regions = [], regionless_text_lines = [], region_indices = ri\<rparr>"
    by (auto simp: RegionReadingOrder_start_def bind_res_eq_Inr)
  note L = observe_index_loop [OF run]
  have alloc: "\<And>b. allocated s b = {}" by (simp add: allocated_def s)
  have ri_s: "region_indices s = ri" by (simp add: s)
  have one: "\<forall>b. \<forall>i \<in> observed doc b \<union> allocated s b. i \<le> region_indices s b"
    using L by (auto simp: observed_def alloc ri_s)
  have two: "\<forall>b. region_indices s b \<in> insert 0 (observed doc b \<union> allocated s b)"
  proof
    fix b
    from L have "ri b = 0 \<or>
        (\<exists>p \<in> set (paths doc). take 2 p = b \<and> (\<exists>seg. index p 2 = Inr seg \<and> py_int seg = Inr (ri b)))"
      by blast
    then show "region_indices s b \<in> insert 0 (observed doc b \<union> allocated s b)"
      by (auto simp: observed_def ri_s)
  qed
  have three: "regionless_text_lines s = []" "ordered_regions s = []" by (simp_all add: s)
  from L have zero: "\<forall>b. 0 \<le> region_indices s b" by (simp add: ri_s)
  from zero one two three show ?thesis by (simp add: rro_inv_def)
qed


lemma paths_set: "set (paths doc) = fst ` set (doc_regions doc)"
  by (simp add: paths_def)

lemma get_Some_path:
  assumes "get doc p = Inr (Some r)"
  shows "p \<in> set (paths doc)"
proof (cases "map_of (doc_regions doc) p")
  case None
  with assms show ?thesis by (simp add: get_def Let_def split: if_splits)
next
  case (Some r')
  then have "(p, r') \<in> set (doc_regions doc)" by (rule map_of_SomeD)
  then have "fst (p, r') \<in> fst ` set (doc_regions doc)" by (rule imageI)
  then show ?thesis by (simp add: paths_set)
qed

lemma allocated_snoc:
  assumes "ordered_regions s' = ordered_regions s @ [(q, r)]"
  shows "allocated s' b = allocated s b \<union> {i. q = b @ [str_int i] \<and> (\<exists>m. r = MergedTextRegion m)}"
  by (auto simp: allocated_def assms)

lemma allocated_same:
  "ordered_regions s' = ordered_regions s \<Longrightarrow> allocated s' b = allocated s b"
  by (simp add: allocated_def)

lemma flush_Inr:
  assumes "flush_regionless_lines L doc s = Inr s'"
  shows "(regionless_text_lines s = [] \<and> s' = s)
       \<or> (regionless_text_lines s \<noteq> []
           \<and> (\<forall>p \<in> set (regionless_text_lines s). take 2 p = take 2 (hd (regionless_text_lines s)))
           \<and> (\<exists>lines. map_res (\<lambda>p. bind_res (lookup (dict (lines_by_path (doc_input doc))) p)
                                          (\<lambda>l. Inr (p, l))) (regionless_text_lines s) = Inr lines
                \<and> s' = s\<lparr>region_indices := (region_indices s)
                            (take 2 (hd (regionless_text_lines s)) :=
                               region_indices s (take 2 (hd (regionless_text_lines s))) + 1),
                         ordered_regions := ordered_regions s @
                           [(take 2 (hd (regionless_text_lines s))
                               @ [str_int (region_indices s (take 2 (hd (regionless_text_lines s))) + 1)],
                             MergedTextRegion (MergedTextRegion_init L
                               (take 2 (hd (regionless_text_lines s))
                                 @ [str_int (region_indices s (take 2 (hd (regionless_text_lines s))) + 1)])
                               lines))],
                         regionless_text_lines := []\<rparr>))"
proof (cases "regionless_text_lines s = []")
  case True
  with assms show ?thesis by (simp add: flush_regionless_lines_def)
next
  case False
  let ?b = "take 2 (hd (regionless_text_lines s))"
  let ?m = "map_res (\<lambda>p. bind_res (lookup (dict (lines_by_path (doc_input doc))) p)
                                          (\<lambda>l. Inr (p, l))) (regionless_text_lines s)"
  have all: "list_all (\<lambda>p. take 2 p = ?b) (regionless_text_lines s)"
  proof (rule ccontr)
    assume "\<not> list_all (\<lambda>p. take 2 p = ?b) (regionless_text_lines s)"
    with False assms show False by (simp add: flush_regionless_lines_def Let_def)
  qed
  show ?thesis
  proof (cases ?m)
    case (Inl e)
    with False all assms show ?thesis by (simp add: flush_regionless_lines_def Let_def)
  next
    case (Inr lines)
    with False all assms have "s' = s\<lparr>region_indices := (region_indices s)
                            (?b := region_indices s ?b + 1),
                         ordered_regions := ordered_regions s @
                           [(?b @ [str_int (region_indices s ?b + 1)],
                             MergedTextRegion (MergedTextRegion_init L
                               (?b @ [str_int (region_indices s ?b + 1)]) lines))],
                         regionless_text_lines := []\<rparr>"
      by (simp add: flush_regionless_lines_def Let_def)
    moreover from all have "\<forall>p \<in> set (regionless_text_lines s). take 2 p = ?b"
      by (simp only: list_all_iff)
    ultimately show ?thesis using False Inr by blast
  qed
qed


lemma allocated_merged:
  assumes "ordered_regions s' = ordered_regions s @ [(b @ [str_int n], MergedTextRegion m)]"
  shows "allocated s' b' = allocated s b' \<union> (if b' = b then {n} else {})"
  unfolding allocated_snoc [OF assms] by (auto simp: str_int_inject)

lemma rro_inv_allocate:
  assumes inv: "rro_inv doc s"
    and o: "ordered_regions s' = ordered_regions s @ [(b @ [str_int n], MergedTextRegion m)]"
    and r: "region_indices s' = (region_indices s)(b := n)"
    and n: "n = region_indices s b + 1"
    and l: "regionless_text_lines s' = []"
  shows "rro_inv doc s'"
proof -
  note al = allocated_merged [OF o]
  from inv have le: "\<And>b' i. i \<in> observed doc b' \<union> allocated s b' \<Longrightarrow> i \<le> region_indices s b'"
    and mem: "\<And>b'. region_indices s b' \<in> insert 0 (observed doc b' \<union> allocated s b')"
    and ord: "\<forall>(q, r) \<in> set (ordered_regions s).
           q \<in> set (paths doc) \<or> (\<exists>b i m. q = b @ [str_int i] \<and> r = MergedTextRegion m)"
    by (auto simp: rro_inv_def)
  have one: "\<forall>b'. \<forall>i \<in> observed doc b' \<union> allocated s' b'. i \<le> region_indices s' b'"
  proof (intro allI ballI)
    fix b' i assume i: "i \<in> observed doc b' \<union> allocated s' b'"
    show "i \<le> region_indices s' b'"
    proof (cases "b' = b")
      case True
      from i True have "i = n \<or> i \<in> observed doc b \<union> allocated s b" by (auto simp: al)
      then show ?thesis
      proof
        assume "i = n" then show ?thesis by (simp add: r True)
      next
        assume "i \<in> observed doc b \<union> allocated s b"
        from le [OF this] show ?thesis by (simp add: r True n)
      qed
    next
      case False
      with i have "i \<in> observed doc b' \<union> allocated s b'" by (auto simp: al)
      from le [OF this] False show ?thesis by (simp add: r)
    qed
  qed
  have two: "\<forall>b'. region_indices s' b' \<in> insert 0 (observed doc b' \<union> allocated s' b')"
  proof
    fix b'
    show "region_indices s' b' \<in> insert 0 (observed doc b' \<union> allocated s' b')"
    proof (cases "b' = b")
      case True
      then show ?thesis by (simp add: r al)
    next
      case False
      with mem [of b'] show ?thesis by (simp add: r al)
    qed
  qed
  have four: "\<forall>(q, r) \<in> set (ordered_regions s').
           q \<in> set (paths doc) \<or> (\<exists>b i m. q = b @ [str_int i] \<and> r = MergedTextRegion m)"
    using ord unfolding o by auto
  from inv have "\<forall>b'. 0 \<le> region_indices s b'" by (simp add: rro_inv_def)
  then have zero: "\<forall>b'. 0 \<le> region_indices s' b'" by (simp add: r n)
  from zero one two four l show ?thesis by (simp add: rro_inv_def)
qed

lemma flush_inv:
  assumes inv: "rro_inv doc s" and run: "flush_regionless_lines L doc s = Inr s'"
  shows "rro_inv doc s'"
  using flush_Inr [OF run]
proof
  assume "regionless_text_lines s = [] \<and> s' = s"
  with inv show ?thesis by simp
next
  let ?b = "take 2 (hd (regionless_text_lines s))"
  let ?n = "region_indices s ?b + 1"
  assume "regionless_text_lines s \<noteq> []
           \<and> (\<forall>p \<in> set (regionless_text_lines s). take 2 p = ?b)
           \<and> (\<exists>lines. map_res (\<lambda>p. bind_res (lookup (dict (lines_by_path (doc_input doc))) p)
                                          (\<lambda>l. Inr (p, l))) (regionless_text_lines s) = Inr lines
                \<and> s' = s\<lparr>region_indices := (region_indices s)(?b := ?n),
                         ordered_regions := ordered_regions s @
                           [(?b @ [str_int ?n],
                             MergedTextRegion (MergedTextRegion_init L (?b @ [str_int ?n]) lines))],
                         regionless_text_lines := []\<rparr>)"
  then obtain lines where s': "s' = s\<lparr>region_indices := (region_indices s)(?b := ?n),
                         ordered_regions := ordered_regions s @
                           [(?b @ [str_int ?n],
                             MergedTextRegion (MergedTextRegion_init L (?b @ [str_int ?n]) lines))],
                         regionless_text_lines := []\<rparr>"
    by blast
  show ?thesis
    by (rule rro_inv_allocate [OF inv, where b = ?b and n = ?n
          and m = "MergedTextRegion_init L (?b @ [str_int ?n]) lines"])
       (simp_all add: s')
qed


lemma rro_inv_add_line:
  assumes "rro_inv doc s" "take 2 p = [''regions'', ''TEXT'']"
  shows "rro_inv doc (s\<lparr>regionless_text_lines := regionless_text_lines s @ [p]\<rparr>)"
  using assms by (simp add: rro_inv_def allocated_def)

lemma path_last_segment:
  assumes "p = b @ [x]" "length p = 3"
  shows "take 2 p = b \<and> index p 2 = Inr x"
proof -
  from assms have "length b = 2" by simp
  with assms(1) show ?thesis by (simp add: index_def nth_append)
qed

lemma rro_inv_block:
  assumes inv: "rro_inv doc s"
    and p: "p \<in> set (paths doc)" "length p = 3"
    and o: "ordered_regions s' = ordered_regions s @ [(p, r)]"
    and r: "region_indices s' = region_indices s"
    and l: "regionless_text_lines s' = regionless_text_lines s"
  shows "rro_inv doc s'"
proof -
  from inv have le: "\<And>b' i. i \<in> observed doc b' \<union> allocated s b' \<Longrightarrow> i \<le> region_indices s b'"
    and mem: "\<And>b'. region_indices s b' \<in> insert 0 (observed doc b' \<union> allocated s b')"
    and lines: "\<forall>p \<in> set (regionless_text_lines s). take 2 p = [''regions'', ''TEXT'']"
    and ord: "\<forall>(q, r) \<in> set (ordered_regions s).
           q \<in> set (paths doc) \<or> (\<exists>b i m. q = b @ [str_int i] \<and> r = MergedTextRegion m)"
    by (auto simp: rro_inv_def)
  have sub: "allocated s' b' \<subseteq> allocated s b' \<union> observed doc b'" for b'
  proof
    fix i assume "i \<in> allocated s' b'"
    then have "i \<in> allocated s b' \<or> p = b' @ [str_int i]"
      by (auto simp: allocated_snoc [OF o])
    then show "i \<in> allocated s b' \<union> observed doc b'"
    proof
      assume "i \<in> allocated s b'" then show ?thesis by simp
    next
      assume e: "p = b' @ [str_int i]"
      from path_last_segment [OF e p(2)]
      have t: "take 2 p = b'" and ix: "index p 2 = Inr (str_int i)" by blast+
      have "i \<in> observed doc b'"
        unfolding observed_def using p(1) t ix py_int_str_int [of i] by blast
      then show ?thesis by simp
    qed
  qed
  have sup: "allocated s b' \<subseteq> allocated s' b'" for b'
    by (auto simp: allocated_snoc [OF o])
  have one: "\<forall>b'. \<forall>i \<in> observed doc b' \<union> allocated s' b'. i \<le> region_indices s' b'"
  proof (intro allI ballI)
    fix b' i assume "i \<in> observed doc b' \<union> allocated s' b'"
    with sub [of b'] have "i \<in> observed doc b' \<union> allocated s b'" by auto
    from le [OF this] show "i \<le> region_indices s' b'" by (simp add: r)
  qed
  have two: "\<forall>b'. region_indices s' b' \<in> insert 0 (observed doc b' \<union> allocated s' b')"
  proof
    fix b'
    from mem [of b'] sup [of b']
    show "region_indices s' b' \<in> insert 0 (observed doc b' \<union> allocated s' b')"
      by (auto simp: r)
  qed
  have four: "\<forall>(q, r) \<in> set (ordered_regions s').
           q \<in> set (paths doc) \<or> (\<exists>b i m. q = b @ [str_int i] \<and> r = MergedTextRegion m)"
    using ord p(1) unfolding o by auto
  from inv have zero: "\<forall>b'. 0 \<le> region_indices s' b'" by (simp add: rro_inv_def r)
  from zero one two four lines show ?thesis by (simp add: rro_inv_def l)
qed

lemma add_regionless_line_inv:
  assumes inv: "rro_inv doc s" and p: "take 2 p = [''regions'', ''TEXT'']"
    and run: "add_regionless_line L doc s p = Inr s'"
  shows "rro_inv doc s'"
proof -
  from run obtain adjacent s1 where
    s1: "(if \<not> adjacent then flush_regionless_lines L doc s else Inr s) = Inr s1"
    and s': "s' = s1\<lparr>regionless_text_lines := regionless_text_lines s1 @ [p]\<rparr>"
    by (auto simp: add_regionless_line_def bind_res_eq_Inr)
  have "rro_inv doc s1"
  proof (cases adjacent)
    case True
    with s1 inv show ?thesis by simp
  next
    case False
    with s1 have "flush_regionless_lines L doc s = Inr s1" by simp
    from flush_inv [OF inv this] show ?thesis .
  qed
  from rro_inv_add_line [OF this p] show ?thesis by (simp add: s')
qed

lemma append_inv:
  assumes inv: "rro_inv doc s" and run: "append L doc p s = Inr s'"
  shows "rro_inv doc s'"
proof (cases "length p = 3")
  case True
  show ?thesis
  proof (cases "flush_regionless_lines L doc s")
    case (Inl e)
    with run True show ?thesis by (simp add: append_def)
  next
    case f: (Inr s1)
    note inv1 = flush_inv [OF inv f]
    show ?thesis
    proof (cases "get doc p")
      case (Inl e)
      with run True f show ?thesis by (simp add: append_def)
    next
      case g: (Inr region)
      show ?thesis
      proof (cases region)
        case None
        with run True f g have "s' = s1" by (simp add: append_def)
        with inv1 show ?thesis by simp
      next
        case (Some r)
        with run True f g
        have s': "s' = s1\<lparr>ordered_regions := ordered_regions s1 @ [(p, r)]\<rparr>"
          by (simp add: append_def)
        from g Some have "p \<in> set (paths doc)" by (simp add: get_Some_path)
        from rro_inv_block [OF inv1 this True, of s' r] show ?thesis by (simp add: s')
      qed
    qed
  qed
next
  case False
  with run have p: "take 2 p = [''regions'', ''TEXT'']"
    and a: "add_regionless_line L doc s p = Inr s'"
    by (auto simp: append_def split: if_splits)
  from add_regionless_line_inv [OF inv p a] show ?thesis .
qed

lemma walked_inv:
  assumes "walked L doc ps = Inr s"
  shows "rro_inv doc s"
proof -
  from assms obtain s0 where s0: "RegionReadingOrder_start doc = Inr s0"
    and run: "for_each (append L doc) ps s0 = Inr s"
    by (auto simp: walked_def bind_res_eq_Inr)
  show ?thesis
    by (rule for_each_invariant [where P = "rro_inv doc", OF run start_inv [OF s0]])
       (rule append_inv)
qed

lemma lookup_present:
  assumes "p \<in> fst ` set items"
  shows "lookup (dict items) p = Inr (the (dict items p)) \<and> dict items p \<noteq> None"
proof -
  from assms have "map_of (rev items) p \<noteq> None"
    by (simp add: map_of_eq_None_iff)
  then show ?thesis by (auto simp: lookup_def dict_def)
qed

lemma py_int_1: "py_int ''1'' = Inr 1"
  by code_simp

lemma example_walk:
  "\<exists>s. walked example_libs example_document
         [[''regions'', ''TEXT'', ''3'', ''0''], [''regions'', ''TEXT'', ''3'', ''1'']] = Inr s
       \<and> regionless_text_lines s =
           [[''regions'', ''TEXT'', ''3'', ''0''], [''regions'', ''TEXT'', ''3'', ''1'']]"
  by (simp add: walked_def RegionReadingOrder_start_def paths_def example_document_def
        observe_index_def index_def py_int_1 append_def add_regionless_line_def is_adjacent_def
        flush_regionless_lines_def lookup_def dict_def example_input_def)

text \<open>
  C5. In a state reached by the reading-order walk with lines accumulated (all of them in
  \<open>lines.by_path\<close>), the flush returns and appends exactly one region to the ordered list:
  a Merged-Text region that holds the accumulated lines in their order. Its path is the
  prefix followed by the index n, where n - 1 is the greatest of 0, the indices observed
  for the prefix and the indices allocated before; so n is above every earlier index of
  the prefix, and the new path is neither a region path of the Document nor a path already
  in the ordered list.
\<close>

theorem flush_allocates_fresh_region:
  assumes w: "walked L doc ps = Inr s"
    and ne: "regionless_text_lines s \<noteq> []"
    and present: "\<forall>p \<in> set (regionless_text_lines s). p \<in> fst ` set (lines_by_path (doc_input doc))"
  shows "\<exists>n lines.
      flush_regionless_lines L doc s =
        Inr (s\<lparr>region_indices := (region_indices s)(base_path s := n),
               ordered_regions := ordered_regions s @
                 [(base_path s @ [str_int n],
                   MergedTextRegion (MergedTextRegion_init L (base_path s @ [str_int n]) lines))],
               regionless_text_lines := []\<rparr>)
      \<and> mt_lines (MergedTextRegion_init L (base_path s @ [str_int n]) lines) = lines
      \<and> map fst lines = regionless_text_lines s
      \<and> (\<forall>(p, l) \<in> set lines. dict (lines_by_path (doc_input doc)) p = Some l)
      \<and> n - 1 \<in> insert 0 (observed doc (base_path s) \<union> allocated s (base_path s))
      \<and> (\<forall>i \<in> insert 0 (observed doc (base_path s) \<union> allocated s (base_path s)). i < n)
      \<and> base_path s @ [str_int n] \<notin> set (paths doc)
      \<and> base_path s @ [str_int n] \<notin> fst ` set (ordered_regions s)"
proof -
  let ?b = "base_path s"
  let ?n = "region_indices s ?b + 1"
  let ?items = "lines_by_path (doc_input doc)"
  let ?g = "\<lambda>p. (p, the (dict ?items p))"
  let ?lines = "map ?g (regionless_text_lines s)"
  let ?new = "?b @ [str_int ?n]"
  from walked_inv [OF w] have inv: "rro_inv doc s" .
  then have zero: "0 \<le> region_indices s ?b"
    and le: "\<And>i. i \<in> observed doc ?b \<union> allocated s ?b \<Longrightarrow> i \<le> region_indices s ?b"
    and mem: "region_indices s ?b \<in> insert 0 (observed doc ?b \<union> allocated s ?b)"
    and is_text: "\<forall>p \<in> set (regionless_text_lines s). take 2 p = [''regions'', ''TEXT'']"
    and ord: "\<forall>(q, r) \<in> set (ordered_regions s).
           q \<in> set (paths doc) \<or> (\<exists>b i m. q = b @ [str_int i] \<and> r = MergedTextRegion m)"
    by (auto simp: rro_inv_def)
  from ne is_text have b: "?b = [''regions'', ''TEXT'']"
    by (cases "regionless_text_lines s") (simp_all add: base_path_def)
  have all: "list_all (\<lambda>p. take 2 p = take 2 (hd (regionless_text_lines s))) (regionless_text_lines s)"
    using is_text b by (simp add: list_all_iff base_path_def)
  have m: "map_res (\<lambda>p. bind_res (lookup (dict ?items) p) (\<lambda>l. Inr (p, l)))
             (regionless_text_lines s) = Inr ?lines"
    by (rule map_res_total) (use present lookup_present in fastforce)
  have run: "flush_regionless_lines L doc s =
        Inr (s\<lparr>region_indices := (region_indices s)(?b := ?n),
               ordered_regions := ordered_regions s @
                 [(?new, MergedTextRegion (MergedTextRegion_init L ?new ?lines))],
               regionless_text_lines := []\<rparr>)"
    using ne all m by (simp add: flush_regionless_lines_def Let_def base_path_def)
  have held: "mt_lines (MergedTextRegion_init L ?new ?lines) = ?lines"
    by (simp add: MergedTextRegion_init_def)
  have order: "map fst ?lines = regionless_text_lines s"
    by (simp add: comp_def)
  have vals: "\<forall>(p, l) \<in> set ?lines. dict ?items p = Some l"
    using present lookup_present by fastforce
  have pred: "?n - 1 \<in> insert 0 (observed doc ?b \<union> allocated s ?b)"
    using mem by simp
  have above: "\<forall>i \<in> insert 0 (observed doc ?b \<union> allocated s ?b). i < ?n"
  proof
    fix i assume "i \<in> insert 0 (observed doc ?b \<union> allocated s ?b)"
    then have "i \<le> region_indices s ?b" using zero le by auto
    then show "i < ?n" by simp
  qed
  have len: "length ?new = 3" by (simp add: b)
  have fresh_doc: "?new \<notin> set (paths doc)"
  proof
    assume in_doc: "?new \<in> set (paths doc)"
    from path_last_segment [OF refl len]
    have t: "take 2 ?new = ?b" and ix: "index ?new 2 = Inr (str_int ?n)" by blast+
    have "?n \<in> observed doc ?b"
      unfolding observed_def using in_doc t ix py_int_str_int [of ?n] by blast
    with le [of ?n] show False by simp
  qed
  have fresh_order: "?new \<notin> fst ` set (ordered_regions s)"
  proof
    assume "?new \<in> fst ` set (ordered_regions s)"
    then obtain r where qr: "(?new, r) \<in> set (ordered_regions s)" by auto
    with ord have "?new \<in> set (paths doc) \<or> (\<exists>b' i m. ?new = b' @ [str_int i] \<and> r = MergedTextRegion m)"
      by blast
    then show False
    proof
      assume "?new \<in> set (paths doc)" with fresh_doc show False by simp
    next
      assume "\<exists>b' i m. ?new = b' @ [str_int i] \<and> r = MergedTextRegion m"
      then obtain b' i m where e: "?new = b' @ [str_int i]" and r: "r = MergedTextRegion m" by blast
      from e have "b' = ?b" "i = ?n" by (auto simp: str_int_inject)
      with qr r have "?n \<in> allocated s ?b" by (auto simp: allocated_def)
      with le [of ?n] show False by simp
    qed
  qed
  from run held order vals pred above fresh_doc fresh_order show ?thesis by blast
qed

theorem flush_allocates_fresh_region_witness:
  "\<exists>s n lines.
      walked example_libs example_document
        [[''regions'', ''TEXT'', ''3'', ''0''], [''regions'', ''TEXT'', ''3'', ''1'']] = Inr s
      \<and> flush_regionless_lines example_libs example_document s =
        Inr (s\<lparr>region_indices := (region_indices s)([''regions'', ''TEXT''] := n),
               ordered_regions := ordered_regions s @
                 [([''regions'', ''TEXT''] @ [str_int n],
                   MergedTextRegion
                     (MergedTextRegion_init example_libs ([''regions'', ''TEXT''] @ [str_int n]) lines))],
               regionless_text_lines := []\<rparr>)
      \<and> map fst lines = [[''regions'', ''TEXT'', ''3'', ''0''], [''regions'', ''TEXT'', ''3'', ''1'']]
      \<and> [''regions'', ''TEXT''] @ [str_int n] \<notin> set (paths example_document)"
proof -
  from example_walk obtain s where
    w: "walked example_libs example_document
         [[''regions'', ''TEXT'', ''3'', ''0''], [''regions'', ''TEXT'', ''3'', ''1'']] = Inr s"
    and r: "regionless_text_lines s =
           [[''regions'', ''TEXT'', ''3'', ''0''], [''regions'', ''TEXT'', ''3'', ''1'']]"
    by blast
  have ne: "regionless_text_lines s \<noteq> []" by (simp add: r)
  have present: "\<forall>p \<in> set (regionless_text_lines s).
      p \<in> fst ` set (lines_by_path (doc_input example_document))"
    by (simp add: r example_document_def example_input_def)
  have b: "base_path s = [''regions'', ''TEXT'']" by (simp add: base_path_def r)
  from flush_allocates_fresh_region [OF w ne present] w show ?thesis
    unfolding b r by (elim exE conjE) (intro exI conjI; assumption)
qed


end
